theory Spec2Isabelle
  imports Complex_Main
begin

section \<open>Point tiling pipeline (build\_point\_tiles.py)\<close>

text \<open>
  A shallow embedding of \<^verbatim>\<open>build_point_tiles.py\<close>: the tile coordinate mapper
  \<^verbatim>\<open>lonlat_to_tile\<close>, the bucket dictionary, the closure \<^verbatim>\<open>flush_buckets\<close> and the
  row loop of \<^verbatim>\<open>main\<close>.

  Conventions of the model.
  \<^item> Python floats that passed the range check of \<^verbatim>\<open>main\<close> are finite; arithmetic on
    them is modelled by arithmetic on \<^typ>\<open>real\<close> (rounding is not modelled). The
    conversion of \<^verbatim>\<open>1 << z\<close> to a float, which raises for \<open>z \<ge> 1024\<close>, is modelled.
  \<^item> Exceptions are values of \<open>py_error\<close>.
  \<^item> The output directory is a partial map from tile keys \<open>(z, x, y)\<close> to file
    contents: the path \<^verbatim>\<open>out/z/x/y.geojson.gz\<close> is determined by the key and determines it.
  \<^item> Whether the directory and the file of a key can be created and opened for writing
    is a property of the key (a predicate of the file system, the parameter \<open>w\<close>): a
    write that cannot start raises and leaves the store as it is. A write that fails
    after the file has been opened is not modelled.
\<close>

subsection \<open>Errors and floats\<close>

datatype py_error =
    ValueError            \<comment> \<open>\<^verbatim>\<open>1 << z\<close> with negative \<open>z\<close>, \<^verbatim>\<open>math.log\<close> of a non-positive number\<close>
  | OverflowError         \<comment> \<open>\<^verbatim>\<open>float * (1 << z)\<close> with \<open>1 << z\<close> too large for a float\<close>
  | ZeroDivisionError     \<comment> \<open>division or modulo by zero\<close>
  | TileReadError         \<comment> \<open>\<^verbatim>\<open>gzip.open\<close>/\<^verbatim>\<open>json.load\<close>/\<^verbatim>\<open>data["features"].extend\<close> raised\<close>
  | OSError               \<comment> \<open>\<^verbatim>\<open>os.makedirs\<close> or \<^verbatim>\<open>gzip.open(path, "wt")\<close> raised\<close>

text \<open>The result of Python's \<^verbatim>\<open>float(s)\<close> when it does not raise.\<close>

datatype pyfloat = Finite real | PosInf | NegInf | NaN

text \<open>The chained comparison \<^verbatim>\<open>lo <= v <= hi\<close> for finite bounds: false on NaN and on
  both infinities.\<close>

fun in_range :: "real \<Rightarrow> pyfloat \<Rightarrow> real \<Rightarrow> bool" where
  "in_range lo (Finite r) hi = (lo \<le> r \<and> r \<le> hi)"
| "in_range lo PosInf hi = False"
| "in_range lo NegInf hi = False"
| "in_range lo NaN hi = False"

text \<open>Python's \<^verbatim>\<open>int(f)\<close> on a finite float truncates towards zero.\<close>

definition py_int :: "real \<Rightarrow> int" where
  "py_int r = (if 0 \<le> r then \<lfloor>r\<rfloor> else \<lceil>r\<rceil>)"

subsection \<open>Tile coordinate mapper\<close>

text \<open>
  \<^verbatim>\<open>
  def lonlat_to_tile(lon, lat, z):
      lat = max(min(lat, 85.05112878), -85.05112878)
      x = int((lon + 180.0) / 360.0 * (1 << z))
      s = math.sin(math.radians(lat))
      y = int((1.0 - math.log((1.0 + s) / (1.0 - s)) / math.pi) / 2.0 * (1 << z))
      return x, y
  \<close>
  The first line is \<open>clamp_lat\<close>; the other lines, on the clamped latitude, are
  \<open>mercator_tile\<close>. There \<^verbatim>\<open>1 << z\<close> raises ValueError for negative \<open>z\<close>, and the product
  of a float and \<^verbatim>\<open>1 << z\<close> raises OverflowError when \<open>1 << z\<close> is too large to be
  converted to a float, that is for \<open>z \<ge> 1024\<close>; the division raises
  ZeroDivisionError when \<open>s = 1\<close> and \<^verbatim>\<open>math.log\<close> raises ValueError on a non-positive
  argument. The longitude and the latitude are finite floats; for the longitudes
  that \<^verbatim>\<open>main\<close> passes, in \<open>[-180, 180]\<close>, no product overflows for \<open>z < 1024\<close>.
\<close>

definition lat_limit :: real where
  "lat_limit = 85.05112878"

definition clamp_lat :: "real \<Rightarrow> real" where
  "clamp_lat lat = max (min lat lat_limit) (- lat_limit)"

definition mercator_tile :: "real \<Rightarrow> real \<Rightarrow> int \<Rightarrow> py_error + (int \<times> int)" where
  "mercator_tile lon lat z =
     (if z < 0 then Inl ValueError
      else if 1024 \<le> z then Inl OverflowError
      else
        let x = py_int ((lon + 180) / 360 * 2 ^ nat z);
            s = sin (lat * pi / 180)
        in if 1 - s = 0 then Inl ZeroDivisionError
           else if (1 + s) / (1 - s) \<le> 0 then Inl ValueError
           else
             let y = py_int ((1 - ln ((1 + s) / (1 - s)) / pi) / 2 * 2 ^ nat z)
             in Inr (x, y))"

definition lonlat_to_tile :: "real \<Rightarrow> real \<Rightarrow> int \<Rightarrow> py_error + (int \<times> int)" where
  "lonlat_to_tile lon lat z = mercator_tile lon (clamp_lat lat) z"

subsection \<open>Rows, features and buckets\<close>

text \<open>
  A row of \<^verbatim>\<open>csv.DictReader\<close>: a dictionary from column names to cells; a short line
  leaves the missing cells \<^verbatim>\<open>None\<close> (the inner option).
\<close>

type_synonym row = "string \<Rightarrow> string option option"

text \<open>
  \<^verbatim>\<open>float(row[key])\<close> inside the \<^verbatim>\<open>try\<close>: \<open>None\<close> when it raises (KeyError for a missing
  column, TypeError for a \<^verbatim>\<open>None\<close> cell, ValueError for text that is not a number).
  Python's built-in \<^verbatim>\<open>float\<close> on strings is the parameter \<open>pf\<close>.
\<close>

definition read_float :: "(string \<Rightarrow> pyfloat option) \<Rightarrow> row \<Rightarrow> string \<Rightarrow> pyfloat option" where
  "read_float pf r key =
     (case r key of
        None \<Rightarrow> None
      | Some None \<Rightarrow> None
      | Some (Some s) \<Rightarrow> pf s)"

text \<open>The command-line arguments that the loop reads (\<^verbatim>\<open>--out\<close> is the tile store).\<close>

record args =
  lat_col :: string
  lon_col :: string
  min_zoom :: int
  max_zoom :: int
  keep_cols :: "string list"
  batch :: int

text \<open>
  A point feature \<^verbatim>\<open>{"type": "Feature", "geometry": {"type": "Point", "coordinates":
  [lon, lat]}, "properties": props}\<close>. The properties are a dictionary in insertion order.
\<close>

record feature =
  lon_of :: real
  lat_of :: real
  properties :: "(string \<times> string) list"

text \<open>\<^verbatim>\<open>d[k] = v\<close> on an insertion-ordered dictionary.\<close>

fun dict_set :: "'k \<Rightarrow> 'v \<Rightarrow> ('k \<times> 'v) list \<Rightarrow> ('k \<times> 'v) list" where
  "dict_set k v [] = [(k, v)]"
| "dict_set k v ((k', v') # d) = (if k' = k then (k', v) # d else (k', v') # dict_set k v d)"

text \<open>
  \<^verbatim>\<open>
  props = {}
  for k in keep_cols:
      v = row.get(k, "")
      if v is None: v = ""
      props[k] = v
  \<close>
\<close>

fun build_props :: "row \<Rightarrow> string list \<Rightarrow> (string \<times> string) list \<Rightarrow> (string \<times> string) list" where
  "build_props r [] props = props"
| "build_props r (k # ks) props =
     build_props r ks
       (dict_set k (case r k of None \<Rightarrow> '''' | Some None \<Rightarrow> '''' | Some (Some v) \<Rightarrow> v) props)"

type_synonym tile_key = "int \<times> int \<times> int"

text \<open>The \<^verbatim>\<open>defaultdict(list)\<close> of buckets, in insertion order.\<close>

type_synonym buckets = "(tile_key \<times> feature list) list"

text \<open>\<^verbatim>\<open>buckets[key].append(feature)\<close>: a missing key is created with an empty list.\<close>

fun bucket_append :: "tile_key \<Rightarrow> feature \<Rightarrow> buckets \<Rightarrow> buckets" where
  "bucket_append k f [] = [(k, [f])]"
| "bucket_append k f ((k', fs) # b) =
     (if k' = k then (k', fs @ [f]) # b else (k', fs) # bucket_append k f b)"

text \<open>
  \<^verbatim>\<open>
  for z in range(args.min_zoom, args.max_zoom + 1):
      x, y = lonlat_to_tile(lon, lat, z)
      buckets[(z, x, y)].append(feature)
  \<close>
  over the list of zoom levels still to visit. An exception leaves the insertions made
  so far in place.
\<close>

fun absorb :: "feature \<Rightarrow> int list \<Rightarrow> buckets \<Rightarrow> py_error option \<times> buckets" where
  "absorb f [] b = (None, b)"
| "absorb f (z # zs) b =
     (case lonlat_to_tile (lon_of f) (lat_of f) z of
        Inl e \<Rightarrow> (Some e, b)
      | Inr (x, y) \<Rightarrow> absorb f zs (bucket_append (z, x, y) f b))"

subsection \<open>Tile store writer\<close>

text \<open>
  What is found at a tile path: a document whose \<^verbatim>\<open>"features"\<close> member is a list (the
  other members are kept as they are by the code and are not modelled), or anything
  on which \<^verbatim>\<open>gzip.open\<close>, \<^verbatim>\<open>json.load\<close> or \<^verbatim>\<open>data["features"].extend\<close> raises.
\<close>

datatype tile_file = FeatureCollection "feature list" | Corrupt

type_synonym tile_store = "tile_key \<Rightarrow> tile_file option"

text \<open>
  The keys whose folder can be created by \<^verbatim>\<open>os.makedirs\<close> and whose file can be opened
  by \<^verbatim>\<open>gzip.open(path, "wt")\<close>; for the other keys one of the two raises (a name that
  is too long, a missing permission). The folder of an existing file exists, so that
  for such a file it is the opening for writing that raises, after the file was
  read.
\<close>

type_synonym writable = "tile_key \<Rightarrow> bool"

text \<open>
  The loop of \<^verbatim>\<open>flush_buckets\<close> over \<^verbatim>\<open>buckets.items()\<close>:
  \<^verbatim>\<open>
  for (z, x, y), feats in buckets.items():
      if not feats: continue
      ...
      if os.path.exists(path):
          with gzip.open(path, "rt", encoding="utf-8") as f:
              data = json.load(f)
          data["features"].extend(feats)
      else:
          data = {"type": "FeatureCollection", "features": feats}
      with gzip.open(path, "wt", encoding="utf-8") as f:
          json.dump(data, f, separators=(",", ":"))
  \<close>
  The store is returned as it is when the exception is raised: the keys before the
  failing one have been written.
\<close>

fun flush_items :: "writable \<Rightarrow> buckets \<Rightarrow> tile_store \<Rightarrow> py_error option \<times> tile_store" where
  "flush_items w [] fs = (None, fs)"
| "flush_items w ((k, feats) # b) fs =
     (if feats = [] then flush_items w b fs
      else case fs k of
             None \<Rightarrow>
               if w k then flush_items w b (fs(k \<mapsto> FeatureCollection feats))
               else (Some OSError, fs)
           | Some Corrupt \<Rightarrow> (Some TileReadError, fs)
           | Some (FeatureCollection old) \<Rightarrow>
               if w k then flush_items w b (fs(k \<mapsto> FeatureCollection (old @ feats)))
               else (Some OSError, fs))"

text \<open>\<^verbatim>\<open>flush_buckets(buckets)\<close>: the loop, then \<^verbatim>\<open>buckets.clear()\<close> when it has not raised.\<close>

definition flush_buckets :: "writable \<Rightarrow> buckets \<Rightarrow> tile_store \<Rightarrow> py_error option \<times> tile_store \<times> buckets" where
  "flush_buckets w b fs =
     (case flush_items w b fs of
        (Some e, fs') \<Rightarrow> (Some e, fs', b)
      | (None, fs') \<Rightarrow> (None, fs', []))"

subsection \<open>Pipeline driver\<close>

text \<open>
  The state of \<^verbatim>\<open>main\<close>: the buckets, the counter \<^verbatim>\<open>rows_seen\<close> and the tile store.
  \<open>flush_log\<close> is a ghost field: each call of \<^verbatim>\<open>flush_buckets\<close> appends the value of
  \<^verbatim>\<open>rows_seen\<close> at the call.
\<close>

record state =
  buckets_of :: buckets
  rows_seen :: nat
  tiles :: tile_store
  flush_log :: "nat list"

definition init_state :: "tile_store \<Rightarrow> state" where
  "init_state fs = \<lparr>buckets_of = [], rows_seen = 0, tiles = fs, flush_log = []\<rparr>"

definition flush_state :: "writable \<Rightarrow> state \<Rightarrow> py_error option \<times> state" where
  "flush_state w st =
     (case flush_buckets w (buckets_of st) (tiles st) of
        (err, fs', b') \<Rightarrow>
          (err, st\<lparr>buckets_of := b', tiles := fs', flush_log := flush_log st @ [rows_seen st]\<rparr>))"

text \<open>
  The coordinates of a row that passes the \<^verbatim>\<open>try\<close> and the range check
  \<^verbatim>\<open>-90 <= lat <= 90 and -180 <= lon <= 180\<close>, as \<open>(lat, lon)\<close>; \<open>None\<close> when the row
  reaches one of the two \<^verbatim>\<open>continue\<close> statements.
\<close>

definition row_coords :: "args \<Rightarrow> (string \<Rightarrow> pyfloat option) \<Rightarrow> row \<Rightarrow> (real \<times> real) option" where
  "row_coords a pf r =
     (case read_float pf r (lat_col a) of
        None \<Rightarrow> None
      | Some lat \<Rightarrow>
          (case read_float pf r (lon_col a) of
             None \<Rightarrow> None
           | Some lon \<Rightarrow>
               if in_range (- 90) lat 90 \<and> in_range (- 180) lon 180
               then (case (lat, lon) of (Finite la, Finite lo) \<Rightarrow> Some (la, lo) | _ \<Rightarrow> None)
               else None))"

definition make_feature :: "args \<Rightarrow> row \<Rightarrow> real \<Rightarrow> real \<Rightarrow> feature" where
  "make_feature a r lat lon =
     \<lparr>lon_of = lon, lat_of = lat, properties = build_props r (keep_cols a) []\<rparr>"

text \<open>
  One iteration of \<^verbatim>\<open>for row in reader\<close>. \<^verbatim>\<open>rows_seen % args.batch\<close> raises
  ZeroDivisionError when the batch size is 0.
\<close>

definition process_row ::
  "writable \<Rightarrow> args \<Rightarrow> (string \<Rightarrow> pyfloat option) \<Rightarrow> state \<Rightarrow> row \<Rightarrow> py_error option \<times> state" where
  "process_row w a pf st r =
     (let st1 = st\<lparr>rows_seen := rows_seen st + 1\<rparr> in
      case row_coords a pf r of
        None \<Rightarrow> (None, st1)
      | Some (lat, lon) \<Rightarrow>
          (case absorb (make_feature a r lat lon) [min_zoom a .. max_zoom a] (buckets_of st1) of
             (Some e, b) \<Rightarrow> (Some e, st1\<lparr>buckets_of := b\<rparr>)
           | (None, b) \<Rightarrow>
               let st2 = st1\<lparr>buckets_of := b\<rparr> in
               if batch a = 0 then (Some ZeroDivisionError, st2)
               else if int (rows_seen st2) mod batch a = 0 then flush_state w st2
               else (None, st2)))"

fun run_rows ::
  "writable \<Rightarrow> args \<Rightarrow> (string \<Rightarrow> pyfloat option) \<Rightarrow> row list \<Rightarrow> state \<Rightarrow> py_error option \<times> state" where
  "run_rows w a pf [] st = (None, st)"
| "run_rows w a pf (r # rs) st =
     (case process_row w a pf st r of
        (Some e, st') \<Rightarrow> (Some e, st')
      | (None, st') \<Rightarrow> run_rows w a pf rs st')"

text \<open>
  \<^verbatim>\<open>main\<close> from the creation of the buckets on: the loop over the rows and the final
  flush. An exception ends the run in the state it was raised in.
\<close>

definition main ::
  "writable \<Rightarrow> args \<Rightarrow> (string \<Rightarrow> pyfloat option) \<Rightarrow> row list \<Rightarrow> tile_store \<Rightarrow> py_error option \<times> state" where
  "main w a pf rows fs =
     (case run_rows w a pf rows (init_state fs) of
        (Some e, st) \<Rightarrow> (Some e, st)
      | (None, st) \<Rightarrow> flush_state w st)"

text \<open>
  The last line of \<^verbatim>\<open>main\<close>, reached when nothing was raised, prints
  \<^verbatim>\<open>Tiled {rows_seen:,} rows into ...\<close>: the number it reports as tiled.
\<close>

definition tiled_report :: "state \<Rightarrow> nat" where
  "tiled_report st = rows_seen st"

subsection \<open>Observations on buckets and stores\<close>

text \<open>The features buffered for a key (\<^verbatim>\<open>buckets.get(k, [])\<close>), the number of buffered
  feature entries, and the features of the tile file of a key (none when the file is
  absent or unreadable).\<close>

definition bucket_features :: "buckets \<Rightarrow> tile_key \<Rightarrow> feature list" where
  "bucket_features b k = (case map_of b k of None \<Rightarrow> [] | Some l \<Rightarrow> l)"

definition bucket_count :: "buckets \<Rightarrow> nat" where
  "bucket_count b = sum_list (map (\<lambda>(k, l). length l) b)"

definition stored :: "tile_store \<Rightarrow> tile_key \<Rightarrow> feature list" where
  "stored fs k = (case fs k of Some (FeatureCollection l) \<Rightarrow> l | _ \<Rightarrow> [])"

text \<open>Stores without an unreadable file, and stores without an empty collection.\<close>

definition no_corrupt :: "tile_store \<Rightarrow> bool" where
  "no_corrupt fs = (\<forall>k. fs k \<noteq> Some Corrupt)"

definition no_empty :: "tile_store \<Rightarrow> bool" where
  "no_empty fs = (\<forall>k. fs k \<noteq> Some (FeatureCollection []))"

text \<open>What the buckets and the store hold for a key together.\<close>

definition held :: "state \<Rightarrow> tile_key \<Rightarrow> feature list" where
  "held st k = stored (tiles st) k @ bucket_features (buckets_of st) k"

text \<open>A row is accepted when it reaches the construction of its feature.\<close>

definition accepted :: "args \<Rightarrow> (string \<Rightarrow> pyfloat option) \<Rightarrow> row \<Rightarrow> bool" where
  "accepted a pf r = (row_coords a pf r \<noteq> None)"

text \<open>The features that absorbing \<open>f\<close> over the zoom levels \<open>zs\<close> adds under the key \<open>k\<close>,
  and the features that a row and a list of rows add under \<open>k\<close>.\<close>

definition feature_contrib :: "feature \<Rightarrow> int list \<Rightarrow> tile_key \<Rightarrow> feature list" where
  "feature_contrib f zs k =
     (if fst k \<in> set zs \<and> lonlat_to_tile (lon_of f) (lat_of f) (fst k) = Inr (snd k)
      then [f] else [])"

definition row_contrib :: "args \<Rightarrow> (string \<Rightarrow> pyfloat option) \<Rightarrow> row \<Rightarrow> tile_key \<Rightarrow> feature list" where
  "row_contrib a pf r k =
     (case row_coords a pf r of
        None \<Rightarrow> []
      | Some (lat, lon) \<Rightarrow> feature_contrib (make_feature a r lat lon) [min_zoom a .. max_zoom a] k)"

definition rows_contrib :: "args \<Rightarrow> (string \<Rightarrow> pyfloat option) \<Rightarrow> row list \<Rightarrow> tile_key \<Rightarrow> feature list" where
  "rows_contrib a pf rows k = concat (map (\<lambda>r. row_contrib a pf r k) rows)"

text \<open>Arguments with which every accepted row raises: a non-empty zoom range that
  starts below 0 or reaches 1024, or a batch size of 0.\<close>

definition bad_zoom :: "args \<Rightarrow> bool" where
  "bad_zoom a = (min_zoom a \<le> max_zoom a \<and> (min_zoom a < 0 \<or> 1024 \<le> max_zoom a))"

definition bad_config :: "args \<Rightarrow> bool" where
  "bad_config a = (batch a = 0 \<or> bad_zoom a)"

text \<open>
  \<open>appended_to base fs fs'\<close>: neither store has an unreadable file, and every tile of
  \<open>fs'\<close> holds the features of \<open>base\<close> followed by those of \<open>fs\<close>. Two runs over the same
  input, one into \<open>fs\<close> and one into \<open>fs'\<close>, keep this relation.
\<close>

definition appended_to :: "tile_store \<Rightarrow> tile_store \<Rightarrow> tile_store \<Rightarrow> bool" where
  "appended_to base fs fs' =
     (no_corrupt fs \<and> no_corrupt fs' \<and> (\<forall>k. stored fs' k = stored base k @ stored fs k))"

text \<open>Two states of the driver that differ only in their stores, which are so related.\<close>

definition lockstep :: "tile_store \<Rightarrow> state \<Rightarrow> state \<Rightarrow> bool" where
  "lockstep base st st' =
     (buckets_of st' = buckets_of st \<and> rows_seen st' = rows_seen st \<and>
      flush_log st' = flush_log st \<and> appended_to base (tiles st) (tiles st'))"

text \<open>A file system in which every tile path can be written.\<close>

definition all_writable :: writable where
  "all_writable k = True"

text \<open>The row numbers, counted from \<open>n\<close>, of the accepted rows whose number is a
  multiple of the batch size.\<close>

definition flush_rows :: "args \<Rightarrow> (string \<Rightarrow> pyfloat option) \<Rightarrow> nat \<Rightarrow> row list \<Rightarrow> nat list" where
  "flush_rows a pf n rows =
     map fst (filter (\<lambda>(i, r). accepted a pf r \<and> int i mod batch a = 0) (enumerate n rows))"

subsection \<open>Example inputs\<close>

text \<open>Python's \<^verbatim>\<open>float\<close> on the literals of the examples; only these cells occur in
  them.\<close>

definition example_float :: "string \<Rightarrow> pyfloat option" where
  "example_float s =
     (if s = ''8.5'' then Some (Finite 8.5)
      else if s = ''47.0'' then Some (Finite 47)
      else if s = ''8.51'' then Some (Finite 8.51)
      else if s = ''47.01'' then Some (Finite 47.01)
      else if s = ''200'' then Some (Finite 200)
      else if s = ''10'' then Some (Finite 10)
      else if s = ''0'' then Some (Finite 0)
      else None)"

text \<open>A row with the columns \<^verbatim>\<open>latitude\<close> and \<^verbatim>\<open>longitude\<close>.\<close>

definition point_row :: "string \<Rightarrow> string \<Rightarrow> row" where
  "point_row lat lon = map_of [(''latitude'', Some lat), (''longitude'', Some lon)]"

text \<open>The end-to-end scenario of the specification: two valid rows and one with
  \<open>lon = 200\<close>, zoom 6 only, the default columns and batch size.\<close>

definition example_args :: args where
  "example_args =
     \<lparr>lat_col = ''latitude'', lon_col = ''longitude'', min_zoom = 6, max_zoom = 6,
      keep_cols = [''observation_uuid'', ''taxon_id'', ''quality_grade'', ''observed_on'',
                   ''observer_id'', ''positional_accuracy''],
      batch = 200000\<rparr>"

definition example_rows :: "row list" where
  "example_rows = [point_row ''47.0'' ''8.5'', point_row ''47.01'' ''8.51'', point_row ''10'' ''200'']"

text \<open>A single point at longitude 0 and latitude 0, tiled at zoom 0, where the only
  tile is \<open>(0, 0, 0)\<close>.\<close>

definition origin_args :: args where
  "origin_args =
     \<lparr>lat_col = ''latitude'', lon_col = ''longitude'', min_zoom = 0, max_zoom = 0,
      keep_cols = [], batch = 1\<rparr>"

definition origin_feature :: feature where
  "origin_feature = \<lparr>lon_of = 0, lat_of = 0, properties = []\<rparr>"

text \<open>The same point tiled at the zooms 0 and 1, in the tiles \<open>(0, 0, 0)\<close> and
  \<open>(1, 1, 1)\<close>, and a file system in which every path but that of one key can be
  written.\<close>

definition two_zoom_args :: args where
  "two_zoom_args =
     \<lparr>lat_col = ''latitude'', lon_col = ''longitude'', min_zoom = 0, max_zoom = 1,
      keep_cols = [], batch = 1\<rparr>"

definition all_but :: "tile_key \<Rightarrow> writable" where
  "all_but k0 k = (k \<noteq> k0)"

subsection \<open>The flush points as the specification words them\<close>

text \<open>
  The flush log that the specification describes: the driver counts the accepted rows
  and flushes whenever that count reaches a multiple of the batch size, then once
  more at the end of the input. \<open>n\<close> is the number of rows read so far, \<open>c\<close> the number
  of rows accepted so far; the log records the number of rows read at each flush, as
  \<open>flush_log\<close> does.
\<close>

fun claimed_flush_log :: "int \<Rightarrow> bool list \<Rightarrow> nat \<Rightarrow> nat \<Rightarrow> nat list" where
  "claimed_flush_log bs [] n c = [n]"
| "claimed_flush_log bs (acc # accs) n c =
     (if acc
      then (if int (c + 1) mod bs = 0 then [n + 1] else []) @ claimed_flush_log bs accs (n + 1) (c + 1)
      else claimed_flush_log bs accs (n + 1) c)"

section \<open>Properties\<close>

subsection \<open>The mapper\<close>

lemma sin_clamped: "\<bar>sin (clamp_lat lat * pi / 180)\<bar> < 1"
proof -
  define t where "t = clamp_lat lat * pi / 180"
  have b: "- lat_limit \<le> clamp_lat lat" "clamp_lat lat \<le> lat_limit"
    by (simp_all add: clamp_lat_def lat_limit_def)
  have "lat_limit < 90" by (simp add: lat_limit_def)
  with b have c: "- 90 < clamp_lat lat" "clamp_lat lat < 90" by linarith+
  have "pi * (- 90) < pi * clamp_lat lat" "pi * clamp_lat lat < pi * 90"
    using c pi_gt_zero by (simp_all only: mult_less_cancel_left_pos)
  then have "- (pi / 2) < t" "t < pi / 2"
    by (simp_all add: t_def field_simps)
  then have "sin (- (pi / 2)) < sin t" "sin t < sin (pi / 2)"
    using sin_monotone_2pi [of "- (pi / 2)" t] sin_monotone_2pi [of t "pi / 2"] by simp_all
  then show ?thesis by (simp add: t_def)
qed

lemma lonlat_to_tile_ok:
  assumes "0 \<le> z" and "z < 1024"
  shows "\<exists>x y. lonlat_to_tile lon lat z = Inr (x, y)"
proof -
  define s where "s = sin (clamp_lat lat * pi / 180)"
  have "\<bar>s\<bar> < 1" unfolding s_def by (rule sin_clamped)
  then have "1 - s \<noteq> 0" "0 < (1 + s) / (1 - s)" by simp_all
  then show ?thesis
    using assms by (simp add: lonlat_to_tile_def mercator_tile_def Let_def s_def [symmetric])
qed

lemma lonlat_to_tile_negative: "z < 0 \<Longrightarrow> lonlat_to_tile lon lat z = Inl ValueError"
  by (simp add: lonlat_to_tile_def mercator_tile_def)

lemma lonlat_to_tile_overflow: "1024 \<le> z \<Longrightarrow> lonlat_to_tile lon lat z = Inl OverflowError"
  by (simp add: lonlat_to_tile_def mercator_tile_def)

lemma lonlat_to_tile_raises:
  "(\<exists>e. lonlat_to_tile lon lat z = Inl e) \<longleftrightarrow> z < 0 \<or> 1024 \<le> z"
proof (cases "z < 0 \<or> 1024 \<le> z")
  case True
  then show ?thesis
    using lonlat_to_tile_negative [of z lon lat] lonlat_to_tile_overflow [of z lon lat] by auto
next
  case False
  then have "0 \<le> z" "z < 1024" by simp_all
  from lonlat_to_tile_ok [OF this, of lon lat] False show ?thesis by auto
qed

lemma clamp_lat_inside: "- lat_limit \<le> lat \<Longrightarrow> lat \<le> lat_limit \<Longrightarrow> clamp_lat lat = lat"
  by (simp add: clamp_lat_def)

lemma clamp_lat_above: "lat_limit < lat \<Longrightarrow> clamp_lat lat = clamp_lat lat_limit"
  by (simp add: clamp_lat_def lat_limit_def)

lemma clamp_lat_below: "lat < - lat_limit \<Longrightarrow> clamp_lat lat = clamp_lat (- lat_limit)"
  by (simp add: clamp_lat_def lat_limit_def)

lemma lonlat_to_tile_cong: "clamp_lat lat = clamp_lat lat' \<Longrightarrow> lonlat_to_tile lon lat z = lonlat_to_tile lon lat' z"
  by (simp add: lonlat_to_tile_def)

text \<open>At the clamped latitude the logarithm is above \<open>pi\<close>, and the row index is negative.\<close>

lemma cos_lower: "1 - x\<^sup>2 / 2 \<le> cos (x::real)"
proof -
  have "cos x = 1 - 2 * (sin (x / 2))\<^sup>2"
    using cos_double_sin [of "x / 2"] by simp
  moreover have "\<bar>sin (x / 2)\<bar> \<le> \<bar>x / 2\<bar>" by (rule abs_sin_x_le_abs_x)
  then have "(sin (x / 2))\<^sup>2 \<le> (x / 2)\<^sup>2" by (simp only: abs_le_square_iff)
  ultimately show ?thesis by (simp add: power2_eq_square)
qed

lemma sin_at_limit: "99395 / 100000 \<le> sin (lat_limit * pi / 180)"
proof -
  define t where "t = (90 - lat_limit) * pi / 180"
  have "sin (lat_limit * pi / 180) = cos t"
    unfolding t_def by (subst sin_cos_eq) (simp add: field_simps)
  moreover have t: "0 \<le> t" "t \<le> 11 / 100"
    using pi_less_4 pi_gt_zero by (simp_all add: t_def lat_limit_def field_simps)
  have "t * t \<le> (11 / 100) * (11 / 100)" using t by (intro mult_mono) simp_all
  then have "1 - (11 / 100)\<^sup>2 / 2 \<le> 1 - t\<^sup>2 / 2" by (simp add: power2_eq_square)
  moreover note cos_lower [of t]
  ultimately show ?thesis by (simp add: power2_eq_square)
qed

lemma ln_ratio_at_limit:
  fixes s :: real
  assumes "99395 / 100000 \<le> s" and "s < 1"
  shows "5 \<le> ln ((1 + s) / (1 - s))"
proof -
  have "exp (5 :: real) = exp 1 ^ 5" using exp_of_nat_mult [of 5 "1 :: real"] by simp
  also have "\<dots> \<le> 3 ^ 5" by (intro power_mono exp_le) simp
  also have "\<dots> \<le> (1 + s) / (1 - s)" using assms by (simp add: field_simps)
  finally have "exp 5 \<le> (1 + s) / (1 - s)" .
  moreover have "0 < (1 + s) / (1 - s)" using assms by simp
  ultimately show ?thesis by (simp add: ln_ge_iff)
qed

lemma lonlat_to_tile_pole:
  "\<exists>y. lonlat_to_tile 0 90 5 = Inr (16, y) \<and> y \<le> - 4"
proof -
  define s where "s = sin (clamp_lat 90 * pi / 180)"
  have cl: "clamp_lat 90 = lat_limit" by (simp add: clamp_lat_def lat_limit_def)
  have s1: "\<bar>s\<bar> < 1" unfolding s_def by (rule sin_clamped)
  have s2: "99395 / 100000 \<le> s" unfolding s_def cl by (rule sin_at_limit)
  from s1 have pos: "0 < (1 + s) / (1 - s)" by simp
  from s1 have g1: "1 - s \<noteq> 0" by simp
  from pos have g2: "\<not> (1 + s) / (1 - s) \<le> 0" by (simp only: not_le)
  note g = g1 g2
  define L where "L = ln ((1 + s) / (1 - s))"
  have L5: "5 \<le> L" unfolding L_def using s2 s1 by (intro ln_ratio_at_limit) simp_all
  have "5 / 4 \<le> L / pi"
  proof -
    have "5 / 4 \<le> 5 / pi" using pi_less_4 pi_gt_zero by (simp add: field_simps)
    also have "\<dots> \<le> L / pi" using L5 pi_gt_zero by (simp add: divide_right_mono)
    finally show ?thesis .
  qed
  then have v: "(1 - L / pi) / 2 * 2 ^ nat 5 \<le> - 4"
  proof -
    define q where "q = L / pi"
    assume "5 / 4 \<le> L / pi"
    then have "5 / 4 \<le> q" by (simp only: q_def)
    then have "(1 - q) / 2 * 2 ^ nat 5 \<le> - 4" by simp
    then show ?thesis by (simp only: q_def)
  qed
  define y where "y = py_int ((1 - L / pi) / 2 * 2 ^ nat 5)"
  have "y = \<lceil>(1 - L / pi) / 2 * 2 ^ nat 5\<rceil>" using v by (simp add: y_def py_int_def)
  then have "y \<le> - 4" using v by (simp add: ceiling_le_iff)
  moreover have "lonlat_to_tile 0 90 5 = Inr (16, y)"
    using g by (simp add: lonlat_to_tile_def mercator_tile_def Let_def s_def [symmetric]
        L_def [symmetric] y_def py_int_def)
  ultimately show ?thesis by blast
qed

subsection \<open>Buckets\<close>

lemma bucket_features_append:
  "bucket_features (bucket_append k f b) k' = bucket_features b k' @ (if k' = k then [f] else [])"
  by (induction b) (auto simp: bucket_features_def)

lemma keys_bucket_append:
  "map fst (bucket_append k f b) = (if k \<in> set (map fst b) then map fst b else map fst b @ [k])"
proof (induction b)
  case Nil
  then show ?case by simp
next
  case (Cons p b)
  obtain k0 l where p: "p = (k0, l)" by (cases p)
  show ?case unfolding p using Cons.IH by (cases "k0 = k") simp_all
qed

lemma distinct_bucket_append:
  "distinct (map fst b) \<Longrightarrow> distinct (map fst (bucket_append k f b))"
  by (simp add: keys_bucket_append)

lemma bucket_count_append: "bucket_count (bucket_append k f b) = Suc (bucket_count b)"
  by (induction b) (auto simp: bucket_count_def)

subsection \<open>Flushing\<close>

lemma no_corruptD: "no_corrupt fs \<Longrightarrow> fs k \<noteq> Some Corrupt"
  unfolding no_corrupt_def by blast

lemma no_emptyD: "no_empty fs \<Longrightarrow> fs k \<noteq> Some (FeatureCollection [])"
  unfolding no_empty_def by blast

lemma no_corrupt_upd: "no_corrupt fs \<Longrightarrow> no_corrupt (fs(k \<mapsto> FeatureCollection l))"
  unfolding no_corrupt_def by (metis fun_upd_apply option.inject tile_file.distinct(1))

lemma no_empty_upd: "no_empty fs \<Longrightarrow> l \<noteq> [] \<Longrightarrow> no_empty (fs(k \<mapsto> FeatureCollection l))"
  unfolding no_empty_def by (metis fun_upd_apply option.inject tile_file.inject)

lemma no_corrupt_empty: "no_corrupt Map.empty"
  by (simp add: no_corrupt_def)

lemma no_empty_empty: "no_empty Map.empty"
  by (simp add: no_empty_def)

lemma stored_nonempty: "stored fs k \<noteq> [] \<Longrightarrow> fs k = Some (FeatureCollection (stored fs k))"
  by (auto simp: stored_def split: option.splits tile_file.splits)

lemma stored_None: "fs k = None \<Longrightarrow> stored fs k = []"
  by (simp add: stored_def)

lemma stored_Corrupt: "fs k = Some Corrupt \<Longrightarrow> stored fs k = []"
  by (simp add: stored_def)

lemma stored_upd:
  "stored (fs(k \<mapsto> FeatureCollection l)) k' = (if k' = k then l else stored fs k')"
  by (simp add: stored_def)

text \<open>One step of the loop of \<open>flush_items\<close>: the entry is skipped, or the loop stops with
  the store as it is, or the features are appended to the tile of the key.\<close>

lemma flush_items_step:
  obtains
    (skipped) "feats = []" "flush_items w ((k, feats) # b) fs = flush_items w b fs"
  | (unreadable) "feats \<noteq> []" "fs k = Some Corrupt"
      "flush_items w ((k, feats) # b) fs = (Some TileReadError, fs)"
  | (unwritable) "feats \<noteq> []" "fs k \<noteq> Some Corrupt" "\<not> w k"
      "flush_items w ((k, feats) # b) fs = (Some OSError, fs)"
  | (appended) "feats \<noteq> []" "fs k \<noteq> Some Corrupt" "w k"
      "flush_items w ((k, feats) # b) fs =
         flush_items w b (fs(k \<mapsto> FeatureCollection (stored fs k @ feats)))"
proof (cases "feats = []")
  case True
  then show ?thesis using skipped by simp
next
  case False
  show ?thesis
  proof (cases "fs k")
    case None
    then show ?thesis using False unwritable appended by (cases "w k") (simp_all add: stored_def)
  next
    case (Some tf)
    show ?thesis
    proof (cases tf)
      case Corrupt
      with Some False show ?thesis using unreadable by simp
    next
      case (FeatureCollection old)
      with Some False show ?thesis using unwritable appended
        by (cases "w k") (simp_all add: stored_def)
    qed
  qed
qed

lemma flush_items_content:
  "distinct (map fst b) \<Longrightarrow> flush_items w b fs = (None, fs') \<Longrightarrow>
   stored fs' k = stored fs k @ bucket_features b k"
proof (induction b arbitrary: fs)
  case Nil
  then show ?case by (simp add: bucket_features_def)
next
  case (Cons p b)
  obtain k0 feats where p: "p = (k0, feats)" by (cases p)
  from Cons.prems(1) p have d: "distinct (map fst b)" and nin: "k0 \<notin> fst ` set b" by auto
  from nin have none: "map_of b k0 = None" by (simp add: map_of_eq_None_iff)
  have bf: "bucket_features (p # b) k = (if k = k0 then feats else bucket_features b k)"
    by (simp add: p bucket_features_def)
  have bf0: "bucket_features b k0 = []" using none by (simp add: bucket_features_def)
  show ?case
  proof (cases rule: flush_items_step [of feats w k0 b fs])
    case skipped
    with Cons.prems(2) p have "flush_items w b fs = (None, fs')" by simp
    with d have "stored fs' k = stored fs k @ bucket_features b k" by (rule Cons.IH)
    then show ?thesis using skipped(1) bf bf0 by simp
  next
    case unreadable
    with Cons.prems(2) p show ?thesis by simp
  next
    case unwritable
    with Cons.prems(2) p show ?thesis by simp
  next
    case appended
    with Cons.prems(2) p
    have "flush_items w b (fs(k0 \<mapsto> FeatureCollection (stored fs k0 @ feats))) = (None, fs')"
      by simp
    with d have "stored fs' k =
        stored (fs(k0 \<mapsto> FeatureCollection (stored fs k0 @ feats))) k @ bucket_features b k"
      by (rule Cons.IH)
    then show ?thesis using bf bf0 by (simp add: stored_upd)
  qed
qed

lemma flush_items_corrupt_kept:
  "fs k = Some Corrupt \<Longrightarrow> snd (flush_items w b fs) k = Some Corrupt"
proof (induction b arbitrary: fs)
  case Nil
  then show ?case by simp
next
  case (Cons p b)
  obtain k0 feats where p: "p = (k0, feats)" by (cases p)
  have same: "snd (flush_items w b fs) k = Some Corrupt"
    using Cons.prems by (rule Cons.IH)
  show ?case
  proof (cases rule: flush_items_step [of feats w k0 b fs])
    case skipped
    then show ?thesis using same p by simp
  next
    case unreadable
    then show ?thesis using Cons.prems p by simp
  next
    case unwritable
    then show ?thesis using Cons.prems p by simp
  next
    case appended
    then have "k0 \<noteq> k" using Cons.prems by auto
    then have "(fs(k0 \<mapsto> FeatureCollection (stored fs k0 @ feats))) k = Some Corrupt"
      using Cons.prems by simp
    then have "snd (flush_items w b (fs(k0 \<mapsto> FeatureCollection (stored fs k0 @ feats)))) k
        = Some Corrupt" by (rule Cons.IH)
    then show ?thesis using appended p by simp
  qed
qed

lemma flush_items_no_corrupt:
  "no_corrupt fs \<Longrightarrow> no_corrupt (snd (flush_items w b fs))"
proof (induction b arbitrary: fs)
  case Nil
  then show ?case by simp
next
  case (Cons p b)
  obtain k0 feats where p: "p = (k0, feats)" by (cases p)
  have same: "no_corrupt (snd (flush_items w b fs))"
    using Cons.prems by (rule Cons.IH)
  show ?case
  proof (cases rule: flush_items_step [of feats w k0 b fs])
    case skipped
    then show ?thesis using same p by simp
  next
    case unreadable
    then show ?thesis using Cons.prems p by simp
  next
    case unwritable
    then show ?thesis using Cons.prems p by simp
  next
    case appended
    have "no_corrupt (snd (flush_items w b (fs(k0 \<mapsto> FeatureCollection (stored fs k0 @ feats)))))"
      using no_corrupt_upd [OF Cons.prems] by (rule Cons.IH)
    then show ?thesis using appended p by simp
  qed
qed

lemma flush_items_no_empty:
  "no_empty fs \<Longrightarrow> no_empty (snd (flush_items w b fs))"
proof (induction b arbitrary: fs)
  case Nil
  then show ?case by simp
next
  case (Cons p b)
  obtain k0 feats where p: "p = (k0, feats)" by (cases p)
  have same: "no_empty (snd (flush_items w b fs))"
    using Cons.prems by (rule Cons.IH)
  show ?case
  proof (cases rule: flush_items_step [of feats w k0 b fs])
    case skipped
    then show ?thesis using same p by simp
  next
    case unreadable
    then show ?thesis using Cons.prems p by simp
  next
    case unwritable
    then show ?thesis using Cons.prems p by simp
  next
    case appended
    then have "stored fs k0 @ feats \<noteq> []" by simp
    from no_empty_upd [OF Cons.prems this]
    have "no_empty (snd (flush_items w b (fs(k0 \<mapsto> FeatureCollection (stored fs k0 @ feats)))))"
      by (rule Cons.IH)
    then show ?thesis using appended p by simp
  qed
qed

text \<open>With every path of the buckets writable and no unreadable file the loop ends
  normally; without an unwritable path its only exception is the read error.\<close>

lemma flush_items_succeeds:
  "no_corrupt fs \<Longrightarrow> \<forall>k\<in>set (map fst b). w k \<Longrightarrow> fst (flush_items w b fs) = None"
proof (induction b arbitrary: fs)
  case Nil
  then show ?case by simp
next
  case (Cons p b)
  obtain k0 feats where p: "p = (k0, feats)" by (cases p)
  from Cons.prems(2) p have w0: "w k0" and wb: "\<forall>k\<in>set (map fst b). w k" by simp_all
  show ?case
  proof (cases rule: flush_items_step [of feats w k0 b fs])
    case skipped
    have "fst (flush_items w b fs) = None" using Cons.prems(1) wb by (rule Cons.IH)
    then show ?thesis using skipped p by simp
  next
    case unreadable
    then show ?thesis using no_corruptD [OF Cons.prems(1), of k0] by simp
  next
    case unwritable
    then show ?thesis using w0 by simp
  next
    case appended
    have "fst (flush_items w b (fs(k0 \<mapsto> FeatureCollection (stored fs k0 @ feats)))) = None"
      using no_corrupt_upd [OF Cons.prems(1)] wb by (rule Cons.IH)
    then show ?thesis using appended p by simp
  qed
qed

lemma flush_items_error:
  "\<forall>k\<in>set (map fst b). w k \<Longrightarrow>
   fst (flush_items w b fs) = None \<or> fst (flush_items w b fs) = Some TileReadError"
proof (induction b arbitrary: fs)
  case Nil
  then show ?case by simp
next
  case (Cons p b)
  obtain k0 feats where p: "p = (k0, feats)" by (cases p)
  from Cons.prems p have w0: "w k0" and wb: "\<forall>k\<in>set (map fst b). w k" by simp_all
  show ?case
  proof (cases rule: flush_items_step [of feats w k0 b fs])
    case skipped
    have "fst (flush_items w b fs) = None \<or> fst (flush_items w b fs) = Some TileReadError"
      using wb by (rule Cons.IH)
    then show ?thesis using skipped p by simp
  next
    case unreadable
    then show ?thesis using p by simp
  next
    case unwritable
    then show ?thesis using w0 by simp
  next
    case appended
    have "fst (flush_items w b (fs(k0 \<mapsto> FeatureCollection (stored fs k0 @ feats)))) = None \<or>
      fst (flush_items w b (fs(k0 \<mapsto> FeatureCollection (stored fs k0 @ feats)))) = Some TileReadError"
      using wb by (rule Cons.IH)
    then show ?thesis using appended p by simp
  qed
qed

lemma flush_items_corrupt_hit:
  "fs k = Some Corrupt \<Longrightarrow> bucket_features b k \<noteq> [] \<Longrightarrow> fst (flush_items w b fs) \<noteq> None"
proof (induction b arbitrary: fs)
  case Nil
  then show ?case by (simp add: bucket_features_def)
next
  case (Cons p b)
  obtain k0 feats where p: "p = (k0, feats)" by (cases p)
  have bf: "bucket_features (p # b) k = (if k = k0 then feats else bucket_features b k)"
    by (simp add: p bucket_features_def)
  show ?case
  proof (cases rule: flush_items_step [of feats w k0 b fs])
    case skipped
    with Cons.prems(2) bf have "bucket_features b k \<noteq> []" by (simp split: if_splits)
    with Cons.prems(1) have "fst (flush_items w b fs) \<noteq> None" by (rule Cons.IH)
    then show ?thesis using skipped p by simp
  next
    case unreadable
    then show ?thesis using p by simp
  next
    case unwritable
    then show ?thesis using p by simp
  next
    case appended
    then have ne: "k0 \<noteq> k" using Cons.prems(1) by auto
    with Cons.prems(2) bf have b': "bucket_features b k \<noteq> []" by simp
    have "(fs(k0 \<mapsto> FeatureCollection (stored fs k0 @ feats))) k = Some Corrupt"
      using ne Cons.prems(1) by simp
    then have "fst (flush_items w b (fs(k0 \<mapsto> FeatureCollection (stored fs k0 @ feats)))) \<noteq> None"
      using b' by (rule Cons.IH)
    then show ?thesis using appended p by simp
  qed
qed

text \<open>Two flushes of the same buckets, into a store and into that store on top of a
  base, end the same way and keep the relation of the stores.\<close>

lemma appended_to_upd:
  assumes "appended_to base fs fs'"
  shows "appended_to base (fs(k \<mapsto> FeatureCollection (stored fs k @ l)))
           (fs'(k \<mapsto> FeatureCollection (stored fs' k @ l)))"
proof -
  from assms have nc: "no_corrupt fs" "no_corrupt fs'"
    and st: "stored fs' k' = stored base k' @ stored fs k'" for k'
    unfolding appended_to_def by blast+
  have "stored (fs'(k \<mapsto> FeatureCollection (stored fs' k @ l))) k' =
      stored base k' @ stored (fs(k \<mapsto> FeatureCollection (stored fs k @ l))) k'" for k'
    using st [of k'] st [of k] by (simp add: stored_upd)
  then show ?thesis
    unfolding appended_to_def using no_corrupt_upd [OF nc(1)] no_corrupt_upd [OF nc(2)] by blast
qed

lemma flush_items_lockstep:
  "appended_to base fs fs' \<Longrightarrow>
   fst (flush_items w b fs) = fst (flush_items w b fs') \<and>
   appended_to base (snd (flush_items w b fs)) (snd (flush_items w b fs'))"
proof (induction b arbitrary: fs fs')
  case Nil
  then show ?case by simp
next
  case (Cons p b)
  obtain k0 feats where p: "p = (k0, feats)" by (cases p)
  from Cons.prems have nc: "fs k0 \<noteq> Some Corrupt" "fs' k0 \<noteq> Some Corrupt"
    unfolding appended_to_def using no_corruptD by blast+
  have same: "fst (flush_items w b fs) = fst (flush_items w b fs') \<and>
      appended_to base (snd (flush_items w b fs)) (snd (flush_items w b fs'))"
    using Cons.prems by (rule Cons.IH)
  have upd: "fst (flush_items w b (fs(k0 \<mapsto> FeatureCollection (stored fs k0 @ feats)))) =
      fst (flush_items w b (fs'(k0 \<mapsto> FeatureCollection (stored fs' k0 @ feats)))) \<and>
      appended_to base
        (snd (flush_items w b (fs(k0 \<mapsto> FeatureCollection (stored fs k0 @ feats)))))
        (snd (flush_items w b (fs'(k0 \<mapsto> FeatureCollection (stored fs' k0 @ feats)))))"
    using appended_to_upd [OF Cons.prems] by (rule Cons.IH)
  show ?case
  proof (cases "feats = []")
    case True
    then show ?thesis using same p by simp
  next
    case False
    show ?thesis
    proof (cases "w k0")
      case True
      have a: "flush_items w (p # b) fs =
          flush_items w b (fs(k0 \<mapsto> FeatureCollection (stored fs k0 @ feats)))"
        using False True nc(1) unfolding p
        by (cases rule: flush_items_step [of feats w k0 b fs]) simp_all
      have b: "flush_items w (p # b) fs' =
          flush_items w b (fs'(k0 \<mapsto> FeatureCollection (stored fs' k0 @ feats)))"
        using False True nc(2) unfolding p
        by (cases rule: flush_items_step [of feats w k0 b fs']) simp_all
      from upd a b show ?thesis by simp
    next
      case nw: False
      have a: "flush_items w (p # b) fs = (Some OSError, fs)"
        using False nw nc(1) unfolding p
        by (cases rule: flush_items_step [of feats w k0 b fs]) simp_all
      have b: "flush_items w (p # b) fs' = (Some OSError, fs')"
        using False nw nc(2) unfolding p
        by (cases rule: flush_items_step [of feats w k0 b fs']) simp_all
      from a b Cons.prems show ?thesis by simp
    qed
  qed
qed

text \<open>A flush raises nothing else than the two exceptions of the model.\<close>

lemma flush_items_error_kinds:
  "fst (flush_items w b fs) = None \<or> fst (flush_items w b fs) = Some TileReadError \<or>
   fst (flush_items w b fs) = Some OSError"
proof (induction b arbitrary: fs)
  case Nil
  then show ?case by simp
next
  case (Cons p b)
  obtain k0 feats where p: "p = (k0, feats)" by (cases p)
  have same: "fst (flush_items w b fs) = None \<or> fst (flush_items w b fs) = Some TileReadError \<or>
      fst (flush_items w b fs) = Some OSError" by (rule Cons.IH)
  have upd: "fst (flush_items w b (fs(k0 \<mapsto> v))) = None \<or>
      fst (flush_items w b (fs(k0 \<mapsto> v))) = Some TileReadError \<or>
      fst (flush_items w b (fs(k0 \<mapsto> v))) = Some OSError" for v by (rule Cons.IH)
  show ?case
  proof (cases rule: flush_items_step [of feats w k0 b fs])
    case skipped
    then show ?thesis using same p by simp
  next
    case unreadable
    then show ?thesis using p by simp
  next
    case unwritable
    then show ?thesis using p by simp
  next
    case appended
    then show ?thesis using upd [of "FeatureCollection (stored fs k0 @ feats)"] p by simp
  qed
qed

subsection \<open>Absorbing a feature\<close>

lemma absorb_ok:
  "\<forall>z\<in>set zs. 0 \<le> z \<and> z < 1024 \<Longrightarrow> fst (absorb f zs b) = None"
proof (induction zs arbitrary: b)
  case Nil
  then show ?case by simp
next
  case (Cons z zs)
  then have "0 \<le> z" "z < 1024" by simp_all
  from lonlat_to_tile_ok [OF this] obtain x y
    where "lonlat_to_tile (lon_of f) (lat_of f) z = Inr (x, y)" by blast
  then show ?case using Cons by simp
qed

lemma absorb_count:
  "absorb f zs b = (None, b') \<Longrightarrow> bucket_count b' = bucket_count b + length zs"
proof (induction zs arbitrary: b)
  case Nil
  then show ?case by simp
next
  case (Cons z zs)
  show ?case
  proof (cases "lonlat_to_tile (lon_of f) (lat_of f) z")
    case (Inl e)
    with Cons.prems show ?thesis by simp
  next
    case (Inr xy)
    obtain x y where xy: "xy = (x, y)" by (cases xy)
    with Inr Cons.prems have "absorb f zs (bucket_append (z, x, y) f b) = (None, b')" by simp
    from Cons.IH [OF this] show ?thesis by (simp add: bucket_count_append)
  qed
qed

lemma absorb_features:
  "distinct zs \<Longrightarrow> absorb f zs b = (None, b') \<Longrightarrow>
   bucket_features b' k = bucket_features b k @ feature_contrib f zs k"
proof (induction zs arbitrary: b)
  case Nil
  then show ?case by (simp add: feature_contrib_def)
next
  case (Cons z zs)
  from Cons.prems(1) have d: "distinct zs" and nin: "z \<notin> set zs" by simp_all
  show ?case
  proof (cases "lonlat_to_tile (lon_of f) (lat_of f) z")
    case (Inl e)
    with Cons.prems show ?thesis by simp
  next
    case (Inr xy)
    obtain x y where xy: "xy = (x, y)" by (cases xy)
    with Inr Cons.prems have "absorb f zs (bucket_append (z, x, y) f b) = (None, b')" by simp
    from Cons.IH [OF d this]
    have step: "bucket_features b' k =
        bucket_features b k @ (if k = (z, x, y) then [f] else []) @ feature_contrib f zs k"
      by (simp add: bucket_features_append)
    show ?thesis
    proof (cases "fst k = z")
      case True
      then have "feature_contrib f zs k = []" using nin by (simp add: feature_contrib_def)
      moreover have "feature_contrib f (z # zs) k = (if k = (z, x, y) then [f] else [])"
        using True Inr xy by (cases k) (auto simp: feature_contrib_def)
      ultimately show ?thesis using step by simp
    next
      case False
      then have "k \<noteq> (z, x, y)" by auto
      moreover have "feature_contrib f (z # zs) k = feature_contrib f zs k"
        using False by (simp add: feature_contrib_def)
      ultimately show ?thesis using step by simp
    qed
  qed
qed

lemma absorb_distinct:
  "distinct (map fst b) \<Longrightarrow> distinct (map fst (snd (absorb f zs b)))"
proof (induction zs arbitrary: b)
  case Nil
  then show ?case by simp
next
  case (Cons z zs)
  show ?case
  proof (cases "lonlat_to_tile (lon_of f) (lat_of f) z")
    case (Inl e)
    with Cons.prems show ?thesis by simp
  next
    case (Inr xy)
    obtain x y where xy: "xy = (x, y)" by (cases xy)
    have "distinct (map fst (snd (absorb f zs (bucket_append (z, x, y) f b))))"
      using distinct_bucket_append [OF Cons.prems] by (rule Cons.IH)
    then show ?thesis using Inr xy by simp
  qed
qed

lemma absorb_raises:
  "\<exists>z\<in>set zs. z < 0 \<or> 1024 \<le> z \<Longrightarrow> fst (absorb f zs b) \<noteq> None"
proof (induction zs arbitrary: b)
  case Nil
  then show ?case by simp
next
  case (Cons z zs)
  show ?case
  proof (cases "lonlat_to_tile (lon_of f) (lat_of f) z")
    case (Inl e)
    then show ?thesis by simp
  next
    case (Inr xy)
    obtain x y where xy: "xy = (x, y)" by (cases xy)
    from Inr lonlat_to_tile_raises [of "lon_of f" "lat_of f" z]
    have "\<not> (z < 0 \<or> 1024 \<le> z)" by auto
    with Cons.prems have "\<exists>z\<in>set zs. z < 0 \<or> 1024 \<le> z" by auto
    then have "fst (absorb f zs (bucket_append (z, x, y) f b)) \<noteq> None" by (rule Cons.IH)
    then show ?thesis using Inr xy by simp
  qed
qed

lemma absorb_negative:
  "z < 0 \<Longrightarrow> absorb f (z # zs) b = (Some ValueError, b)"
  by (simp add: lonlat_to_tile_negative)

lemma absorb_overflow:
  "1024 \<le> z \<Longrightarrow> absorb f (z # zs) b = (Some OverflowError, b)"
  by (simp add: lonlat_to_tile_overflow)

lemma upto_negative_start:
  "lo < 0 \<Longrightarrow> lo \<le> hi \<Longrightarrow> absorb f [lo..hi] b = (Some ValueError, b)"
proof -
  assume "lo < 0" "lo \<le> hi"
  then have "[lo..hi] = lo # [lo + 1..hi]" by (simp add: upto_rec1)
  then show ?thesis using \<open>lo < 0\<close> by (simp only: absorb_negative)
qed

lemma absorb_range_ok:
  "\<not> (lo \<le> hi \<and> (lo < 0 \<or> 1024 \<le> hi)) \<Longrightarrow> fst (absorb f [lo..hi] b) = None"
  by (rule absorb_ok) auto

lemma absorb_range_raises:
  "lo \<le> hi \<and> (lo < 0 \<or> 1024 \<le> hi) \<Longrightarrow> fst (absorb f [lo..hi] b) \<noteq> None"
  by (rule absorb_raises) auto

text \<open>What the loop has done does not depend on the buckets it started from.\<close>

lemma absorb_outcome:
  "fst (absorb f zs b) = fst (absorb f zs b')"
proof (induction zs arbitrary: b b')
  case Nil
  then show ?case by simp
next
  case (Cons z zs)
  show ?case
  proof (cases "lonlat_to_tile (lon_of f) (lat_of f) z")
    case (Inl e)
    then show ?thesis by simp
  next
    case (Inr xy)
    obtain x y where xy: "xy = (x, y)" by (cases xy)
    have "fst (absorb f zs (bucket_append (z, x, y) f b)) =
        fst (absorb f zs (bucket_append (z, x, y) f b'))" by (rule Cons.IH)
    then show ?thesis using Inr xy by simp
  qed
qed

subsection \<open>One row\<close>

lemma flush_state_alt:
  "flush_state w st =
     (case flush_items w (buckets_of st) (tiles st) of
        (None, fs') \<Rightarrow>
          (None, st\<lparr>buckets_of := [], tiles := fs', flush_log := flush_log st @ [rows_seen st]\<rparr>)
      | (Some e, fs') \<Rightarrow>
          (Some e, st\<lparr>tiles := fs', flush_log := flush_log st @ [rows_seen st]\<rparr>))"
  by (simp add: flush_state_def flush_buckets_def split: prod.splits option.splits)

lemma flush_state_ok:
  assumes "distinct (map fst (buckets_of st))" and "flush_state w st = (None, st')"
  shows "held st' k = held st k" and "buckets_of st' = []" and "rows_seen st' = rows_seen st"
    and "flush_log st' = flush_log st @ [rows_seen st]"
proof -
  obtain e fs' where fi: "flush_items w (buckets_of st) (tiles st) = (e, fs')"
    by (cases "flush_items w (buckets_of st) (tiles st)")
  with assms(2) have e: "e = None"
    and st': "st' = st\<lparr>buckets_of := [], tiles := fs', flush_log := flush_log st @ [rows_seen st]\<rparr>"
    by (auto simp: flush_state_alt split: option.splits)
  from flush_items_content [OF assms(1) fi [unfolded e]]
  have "stored fs' k = stored (tiles st) k @ bucket_features (buckets_of st) k" .
  then show "held st' k = held st k" by (simp add: held_def st' bucket_features_def)
  show "buckets_of st' = []" "rows_seen st' = rows_seen st"
    "flush_log st' = flush_log st @ [rows_seen st]" by (simp_all add: st')
qed

lemma flush_state_corrupt_kept:
  "tiles st k = Some Corrupt \<Longrightarrow> tiles (snd (flush_state w st)) k = Some Corrupt"
  using flush_items_corrupt_kept [of "tiles st" k w "buckets_of st"]
  by (cases "flush_items w (buckets_of st) (tiles st)")
    (auto simp: flush_state_alt split: option.splits)

lemma flush_state_no_corrupt:
  "no_corrupt (tiles st) \<Longrightarrow> no_corrupt (tiles (snd (flush_state w st)))"
  using flush_items_no_corrupt [of "tiles st" w "buckets_of st"]
  by (cases "flush_items w (buckets_of st) (tiles st)")
    (auto simp: flush_state_alt split: option.splits)

lemma flush_state_succeeds:
  "no_corrupt (tiles st) \<Longrightarrow> \<forall>k. w k \<Longrightarrow> fst (flush_state w st) = None"
proof -
  assume nc: "no_corrupt (tiles st)" and w: "\<forall>k. w k"
  from w have "\<forall>k\<in>set (map fst (buckets_of st)). w k" by blast
  with nc have "fst (flush_items w (buckets_of st) (tiles st)) = None"
    by (rule flush_items_succeeds)
  then show ?thesis
    by (cases "flush_items w (buckets_of st) (tiles st)") (simp add: flush_state_alt)
qed

lemma flush_state_lockstep:
  assumes "lockstep base st st'"
  shows "fst (flush_state w st) = fst (flush_state w st') \<and>
    lockstep base (snd (flush_state w st)) (snd (flush_state w st'))"
proof -
  from assms have eq: "buckets_of st' = buckets_of st" "rows_seen st' = rows_seen st"
      "flush_log st' = flush_log st"
    and ap: "appended_to base (tiles st) (tiles st')"
    by (simp_all add: lockstep_def)
  obtain e fs1 where f1: "flush_items w (buckets_of st) (tiles st) = (e, fs1)"
    by (cases "flush_items w (buckets_of st) (tiles st)")
  obtain e' fs2 where f2: "flush_items w (buckets_of st) (tiles st') = (e', fs2)"
    by (cases "flush_items w (buckets_of st) (tiles st')")
  from flush_items_lockstep [OF ap, of w "buckets_of st"] f1 f2
  have "e' = e" "appended_to base fs1 fs2" by simp_all
  with f1 f2 eq show ?thesis
    by (cases e) (simp_all add: flush_state_alt lockstep_def)
qed

lemma flush_state_no_empty:
  "no_empty (tiles st) \<Longrightarrow> no_empty (tiles (snd (flush_state w st)))"
  using flush_items_no_empty [of "tiles st" w "buckets_of st"]
  by (cases "flush_items w (buckets_of st) (tiles st)")
    (auto simp: flush_state_alt split: option.splits)

lemma flush_state_empty_buckets:
  "buckets_of st = [] \<Longrightarrow>
   flush_state w st = (None, st\<lparr>buckets_of := [], tiles := tiles st, flush_log := flush_log st @ [rows_seen st]\<rparr>)"
  by (simp add: flush_state_alt)

lemma process_row_skip:
  "row_coords a pf r = None \<Longrightarrow> process_row w a pf st r = (None, st\<lparr>rows_seen := rows_seen st + 1\<rparr>)"
  by (simp add: process_row_def)

lemma process_row_ok:
  assumes "distinct (map fst (buckets_of st))" and "process_row w a pf st r = (None, st')"
  shows "held st' k = held st k @ row_contrib a pf r k"
    and "distinct (map fst (buckets_of st'))"
    and "rows_seen st' = rows_seen st + 1"
    and "flush_log st' = flush_log st @
           (if accepted a pf r \<and> int (rows_seen st + 1) mod batch a = 0 then [rows_seen st + 1] else [])"
proof -
  have "held st' k = held st k @ row_contrib a pf r k \<and> distinct (map fst (buckets_of st')) \<and>
      rows_seen st' = rows_seen st + 1 \<and> flush_log st' = flush_log st @
           (if accepted a pf r \<and> int (rows_seen st + 1) mod batch a = 0 then [rows_seen st + 1] else [])"
  proof (cases "row_coords a pf r")
    case None
    with assms(2) have "st' = st\<lparr>rows_seen := rows_seen st + 1\<rparr>"
      by (simp add: process_row_skip)
    with None assms(1) show ?thesis
      by (simp add: row_contrib_def accepted_def held_def)
  next
    case (Some c)
    obtain lat lon where c: "c = (lat, lon)" by (cases c)
    define f where "f = make_feature a r lat lon"
    define st1 where "st1 = st\<lparr>rows_seen := rows_seen st + 1\<rparr>"
    obtain e b where ab: "absorb f [min_zoom a .. max_zoom a] (buckets_of st) = (e, b)"
      by (cases "absorb f [min_zoom a .. max_zoom a] (buckets_of st)")
    have pr: "process_row w a pf st r =
        (case e of Some err \<Rightarrow> (Some err, st1\<lparr>buckets_of := b\<rparr>)
         | None \<Rightarrow> if batch a = 0 then (Some ZeroDivisionError, st1\<lparr>buckets_of := b\<rparr>)
                   else if int (rows_seen st + 1) mod batch a = 0 then flush_state w (st1\<lparr>buckets_of := b\<rparr>)
                   else (None, st1\<lparr>buckets_of := b\<rparr>))"
      using Some c ab by (cases e) (simp_all add: process_row_def f_def st1_def Let_def)
    from pr assms(2) have e: "e = None" and nz: "batch a \<noteq> 0"
      by (auto split: option.splits if_splits)
    define st2 where "st2 = st1\<lparr>buckets_of := b\<rparr>"
    have bf: "bucket_features b k = bucket_features (buckets_of st) k @ row_contrib a pf r k"
      using absorb_features [OF _ ab [unfolded e], of k] Some c
      by (simp add: row_contrib_def f_def)
    have db: "distinct (map fst b)"
      using absorb_distinct [OF assms(1), of f "[min_zoom a .. max_zoom a]"] ab by simp
    have h2: "held st2 k = held st k @ row_contrib a pf r k"
      by (simp add: held_def st2_def st1_def bf)
    have acc: "accepted a pf r" using Some by (simp add: accepted_def)
    show ?thesis
    proof (cases "int (rows_seen st + 1) mod batch a = 0")
      case True
      with pr e nz assms(2) have fl: "flush_state w st2 = (None, st')" by (simp add: st2_def)
      have d2: "distinct (map fst (buckets_of st2))" using db by (simp add: st2_def)
      from flush_state_ok(1) [OF d2 fl, of k] flush_state_ok(2-4) [OF d2 fl] h2 True acc
      show ?thesis by (simp add: st2_def st1_def)
    next
      case False
      with pr e nz assms(2) have "st' = st2" by (simp add: st2_def)
      with h2 db False show ?thesis by (simp add: st2_def st1_def)
    qed
  qed
  then show "held st' k = held st k @ row_contrib a pf r k"
    and "distinct (map fst (buckets_of st'))"
    and "rows_seen st' = rows_seen st + 1"
    and "flush_log st' = flush_log st @
           (if accepted a pf r \<and> int (rows_seen st + 1) mod batch a = 0 then [rows_seen st + 1] else [])"
    by simp_all
qed

lemma process_row_tiles:
  "tiles (snd (process_row w a pf st r)) = tiles st \<or>
   (\<exists>st2. tiles st2 = tiles st \<and> tiles (snd (process_row w a pf st r)) = tiles (snd (flush_state w st2)))"
proof (cases "row_coords a pf r")
  case None
  then show ?thesis by (simp add: process_row_skip)
next
  case (Some c)
  obtain lat lon where c: "c = (lat, lon)" by (cases c)
  obtain e b where ab: "absorb (make_feature a r lat lon) [min_zoom a .. max_zoom a] (buckets_of st) = (e, b)"
    by (cases "absorb (make_feature a r lat lon) [min_zoom a .. max_zoom a] (buckets_of st)")
  define st2 where "st2 = st\<lparr>rows_seen := rows_seen st + 1, buckets_of := b\<rparr>"
  have t2: "tiles st2 = tiles st" by (simp add: st2_def)
  have "process_row w a pf st r = flush_state w st2 \<or> tiles (snd (process_row w a pf st r)) = tiles st"
    using Some c ab by (cases e) (simp_all add: process_row_def Let_def st2_def)
  with t2 show ?thesis by metis
qed

lemma process_row_corrupt_kept:
  "tiles st k = Some Corrupt \<Longrightarrow> tiles (snd (process_row w a pf st r)) k = Some Corrupt"
  using process_row_tiles [of w a pf st r] flush_state_corrupt_kept by metis

lemma process_row_no_empty:
  "no_empty (tiles st) \<Longrightarrow> no_empty (tiles (snd (process_row w a pf st r)))"
  using process_row_tiles [of w a pf st r] flush_state_no_empty by metis

lemma process_row_no_corrupt:
  "no_corrupt (tiles st) \<Longrightarrow> no_corrupt (tiles (snd (process_row w a pf st r)))"
  using process_row_tiles [of w a pf st r] flush_state_no_corrupt by metis

lemma process_row_good:
  assumes "no_corrupt (tiles st)" and "\<not> bad_config a" and "\<forall>k. w k"
  shows "fst (process_row w a pf st r) = None"
proof (cases "row_coords a pf r")
  case None
  then show ?thesis by (simp add: process_row_skip)
next
  case (Some c)
  obtain lat lon where c: "c = (lat, lon)" by (cases c)
  from assms(2) have nz: "batch a \<noteq> 0"
    and rg: "\<not> (min_zoom a \<le> max_zoom a \<and> (min_zoom a < 0 \<or> 1024 \<le> max_zoom a))"
    by (simp_all add: bad_config_def bad_zoom_def)
  obtain e b where ab: "absorb (make_feature a r lat lon) [min_zoom a .. max_zoom a] (buckets_of st) = (e, b)"
    by (cases "absorb (make_feature a r lat lon) [min_zoom a .. max_zoom a] (buckets_of st)")
  from absorb_range_ok [OF rg, of "make_feature a r lat lon" "buckets_of st"] ab
  have e: "e = None" by simp
  define st2 where "st2 = st\<lparr>rows_seen := rows_seen st + 1, buckets_of := b\<rparr>"
  have "no_corrupt (tiles st2)" using assms(1) by (simp add: st2_def)
  from flush_state_succeeds [OF this assms(3)] have "fst (flush_state w st2) = None" .
  then show ?thesis
    using Some c ab e nz by (simp add: process_row_def Let_def st2_def)
qed

lemma process_row_bad:
  assumes "bad_config a"
  shows "tiles (snd (process_row w a pf st r)) = tiles st"
    and "fst (process_row w a pf st r) = None \<longleftrightarrow> \<not> accepted a pf r"
    and "fst (process_row w a pf st r) = None \<Longrightarrow> buckets_of (snd (process_row w a pf st r)) = buckets_of st"
proof -
  have "tiles (snd (process_row w a pf st r)) = tiles st \<and>
    (fst (process_row w a pf st r) = None \<longleftrightarrow> \<not> accepted a pf r) \<and>
    (fst (process_row w a pf st r) = None \<longrightarrow> buckets_of (snd (process_row w a pf st r)) = buckets_of st)"
  proof (cases "row_coords a pf r")
    case None
    then show ?thesis by (simp add: process_row_skip accepted_def)
  next
    case (Some c)
    obtain lat lon where c: "c = (lat, lon)" by (cases c)
    have acc: "accepted a pf r" using Some by (simp add: accepted_def)
    show ?thesis
    proof (cases "bad_zoom a")
      case True
      obtain e b where ab: "absorb (make_feature a r lat lon) [min_zoom a .. max_zoom a] (buckets_of st) = (e, b)"
        by (cases "absorb (make_feature a r lat lon) [min_zoom a .. max_zoom a] (buckets_of st)")
      from True absorb_range_raises [of "min_zoom a" "max_zoom a" "make_feature a r lat lon" "buckets_of st"] ab
      obtain err where "e = Some err" by (auto simp: bad_zoom_def)
      then show ?thesis using Some c acc ab by (simp add: process_row_def Let_def)
    next
      case False
      with assms have z: "batch a = 0" by (simp add: bad_config_def)
      obtain e b where ab: "absorb (make_feature a r lat lon) [min_zoom a .. max_zoom a] (buckets_of st) = (e, b)"
        by (cases "absorb (make_feature a r lat lon) [min_zoom a .. max_zoom a] (buckets_of st)")
      show ?thesis using Some c acc ab z by (cases e) (simp_all add: process_row_def Let_def)
    qed
  qed
  then show "tiles (snd (process_row w a pf st r)) = tiles st"
    and "fst (process_row w a pf st r) = None \<longleftrightarrow> \<not> accepted a pf r"
    and "fst (process_row w a pf st r) = None \<Longrightarrow> buckets_of (snd (process_row w a pf st r)) = buckets_of st"
    by simp_all
qed

lemma process_row_lockstep:
  assumes "lockstep base st st'"
  shows "fst (process_row w a pf st r) = fst (process_row w a pf st' r) \<and>
    lockstep base (snd (process_row w a pf st r)) (snd (process_row w a pf st' r))"
proof (cases "row_coords a pf r")
  case None
  then show ?thesis using assms by (simp add: process_row_skip lockstep_def)
next
  case (Some c)
  obtain lat lon where c: "c = (lat, lon)" by (cases c)
  from assms have eq: "buckets_of st' = buckets_of st" "rows_seen st' = rows_seen st"
    by (simp_all add: lockstep_def)
  obtain e b where ab: "absorb (make_feature a r lat lon) [min_zoom a .. max_zoom a] (buckets_of st) = (e, b)"
    by (cases "absorb (make_feature a r lat lon) [min_zoom a .. max_zoom a] (buckets_of st)")
  define st2 where "st2 = st\<lparr>rows_seen := rows_seen st + 1, buckets_of := b\<rparr>"
  define st2' where "st2' = st'\<lparr>rows_seen := rows_seen st' + 1, buckets_of := b\<rparr>"
  have l2: "lockstep base st2 st2'"
    using assms by (simp add: lockstep_def st2_def st2'_def)
  have rs: "rows_seen st2' = rows_seen st2" using eq by (simp add: st2_def st2'_def)
  have p1: "process_row w a pf st r =
      (case e of Some err \<Rightarrow> (Some err, st2)
       | None \<Rightarrow> if batch a = 0 then (Some ZeroDivisionError, st2)
                 else if int (rows_seen st2) mod batch a = 0 then flush_state w st2
                 else (None, st2))"
    using Some c ab by (cases e) (simp_all add: process_row_def Let_def st2_def)
  have p2: "process_row w a pf st' r =
      (case e of Some err \<Rightarrow> (Some err, st2')
       | None \<Rightarrow> if batch a = 0 then (Some ZeroDivisionError, st2')
                 else if int (rows_seen st2) mod batch a = 0 then flush_state w st2'
                 else (None, st2'))"
    using Some c ab eq rs by (cases e) (simp_all add: process_row_def Let_def st2'_def)
  show ?thesis
    unfolding p1 p2 using l2 flush_state_lockstep [OF l2, of w]
    by (cases e) simp_all
qed

subsection \<open>The loop over the rows\<close>

lemma run_rows_ok:
  assumes "distinct (map fst (buckets_of st))" and "run_rows w a pf rows st = (None, st')"
  shows "held st' k = held st k @ rows_contrib a pf rows k"
    and "distinct (map fst (buckets_of st'))"
    and "rows_seen st' = rows_seen st + length rows"
    and "flush_log st' = flush_log st @ flush_rows a pf (rows_seen st + 1) rows"
proof -
  have "held st' k = held st k @ rows_contrib a pf rows k \<and>
      distinct (map fst (buckets_of st')) \<and>
      rows_seen st' = rows_seen st + length rows \<and>
      flush_log st' = flush_log st @ flush_rows a pf (rows_seen st + 1) rows"
    using assms
  proof (induction rows arbitrary: st)
    case Nil
    then show ?case by (simp add: rows_contrib_def flush_rows_def)
  next
    case (Cons r rows)
    obtain e st1 where pr: "process_row w a pf st r = (e, st1)"
      by (cases "process_row w a pf st r")
    with Cons.prems(2) have e: "e = None" and rr: "run_rows w a pf rows st1 = (None, st')"
      by (auto split: option.splits)
    note p = process_row_ok [OF Cons.prems(1) pr [unfolded e]]
    from Cons.IH [OF p(2) rr] p(1) [of k] p(3) p(4)
    show ?case by (simp add: rows_contrib_def flush_rows_def)
  qed
  then show "held st' k = held st k @ rows_contrib a pf rows k"
    and "distinct (map fst (buckets_of st'))"
    and "rows_seen st' = rows_seen st + length rows"
    and "flush_log st' = flush_log st @ flush_rows a pf (rows_seen st + 1) rows"
    by simp_all
qed

lemma run_rows_corrupt_kept:
  "tiles st k = Some Corrupt \<Longrightarrow> tiles (snd (run_rows w a pf rows st)) k = Some Corrupt"
proof (induction rows arbitrary: st)
  case Nil
  then show ?case by simp
next
  case (Cons r rows)
  obtain e st1 where pr: "process_row w a pf st r = (e, st1)"
    by (cases "process_row w a pf st r")
  from process_row_corrupt_kept [OF Cons.prems, of w a pf r] pr
  have c1: "tiles st1 k = Some Corrupt" by simp
  from Cons.IH [OF c1] c1 pr show ?case by (cases e) simp_all
qed

lemma run_rows_no_empty:
  "no_empty (tiles st) \<Longrightarrow> no_empty (tiles (snd (run_rows w a pf rows st)))"
proof (induction rows arbitrary: st)
  case Nil
  then show ?case by simp
next
  case (Cons r rows)
  obtain e st1 where pr: "process_row w a pf st r = (e, st1)"
    by (cases "process_row w a pf st r")
  from process_row_no_empty [OF Cons.prems, of w a pf r] pr
  have c1: "no_empty (tiles st1)" by simp
  from Cons.IH [OF c1] c1 pr show ?case by (cases e) simp_all
qed

lemma run_rows_no_corrupt:
  "no_corrupt (tiles st) \<Longrightarrow> no_corrupt (tiles (snd (run_rows w a pf rows st)))"
proof (induction rows arbitrary: st)
  case Nil
  then show ?case by simp
next
  case (Cons r rows)
  obtain e st1 where pr: "process_row w a pf st r = (e, st1)"
    by (cases "process_row w a pf st r")
  from process_row_no_corrupt [OF Cons.prems, of w a pf r] pr
  have c1: "no_corrupt (tiles st1)" by simp
  from Cons.IH [OF c1] c1 pr show ?case by (cases e) simp_all
qed

lemma run_rows_good:
  "no_corrupt (tiles st) \<Longrightarrow> \<not> bad_config a \<Longrightarrow> \<forall>k. w k \<Longrightarrow>
   fst (run_rows w a pf rows st) = None"
proof (induction rows arbitrary: st)
  case Nil
  then show ?case by simp
next
  case (Cons r rows)
  obtain e st1 where pr: "process_row w a pf st r = (e, st1)"
    by (cases "process_row w a pf st r")
  from process_row_good [OF Cons.prems, of pf r] pr have e: "e = None" by simp
  from process_row_no_corrupt [OF Cons.prems(1), of w a pf r] pr
  have c1: "no_corrupt (tiles st1)" by simp
  from Cons.IH [OF c1 Cons.prems(2,3)] pr e show ?case by simp
qed

lemma run_rows_lockstep:
  "lockstep base st st' \<Longrightarrow>
   fst (run_rows w a pf rows st) = fst (run_rows w a pf rows st') \<and>
   lockstep base (snd (run_rows w a pf rows st)) (snd (run_rows w a pf rows st'))"
proof (induction rows arbitrary: st st')
  case Nil
  then show ?case by simp
next
  case (Cons r rows)
  obtain e st1 where p1: "process_row w a pf st r = (e, st1)"
    by (cases "process_row w a pf st r")
  obtain e' st1' where p2: "process_row w a pf st' r = (e', st1')"
    by (cases "process_row w a pf st' r")
  from process_row_lockstep [OF Cons.prems, of w a pf r] p1 p2
  have e: "e' = e" and l1: "lockstep base st1 st1'" by simp_all
  from Cons.IH [OF l1] p1 p2 e l1 show ?case by (cases e) simp_all
qed

lemma run_rows_bad:
  assumes "bad_config a"
  shows "tiles (snd (run_rows w a pf rows st)) = tiles st \<and>
    (fst (run_rows w a pf rows st) = None \<longleftrightarrow> (\<forall>r\<in>set rows. \<not> accepted a pf r)) \<and>
    (fst (run_rows w a pf rows st) = None \<longrightarrow> buckets_of (snd (run_rows w a pf rows st)) = buckets_of st)"
proof (induction rows arbitrary: st)
  case Nil
  then show ?case by simp
next
  case (Cons r rows)
  obtain e st1 where pr: "process_row w a pf st r = (e, st1)"
    by (cases "process_row w a pf st r")
  note b = process_row_bad [OF assms, of w pf st r]
  show ?case
  proof (cases e)
    case None
    with b pr have "tiles st1 = tiles st" "\<not> accepted a pf r" "buckets_of st1 = buckets_of st"
      by simp_all
    with Cons.IH [of st1] pr None show ?thesis by simp
  next
    case (Some err)
    with b pr have "tiles st1 = tiles st" "accepted a pf r" by simp_all
    with pr Some show ?thesis by auto
  qed
qed

subsection \<open>The whole run\<close>

lemma init_state_simps:
  "buckets_of (init_state fs) = []" "rows_seen (init_state fs) = 0"
  "tiles (init_state fs) = fs" "flush_log (init_state fs) = []"
  by (simp_all add: init_state_def)

lemma held_init: "held (init_state fs) k = stored fs k"
  by (simp add: held_def init_state_simps bucket_features_def)

lemma main_ok:
  assumes "main w a pf rows fs = (None, st)"
  shows "stored (tiles st) k = stored fs k @ rows_contrib a pf rows k"
    and "buckets_of st = []"
    and "rows_seen st = length rows"
    and "flush_log st = flush_rows a pf 1 rows @ [length rows]"
proof -
  obtain e st1 where rr: "run_rows w a pf rows (init_state fs) = (e, st1)"
    by (cases "run_rows w a pf rows (init_state fs)")
  with assms have e: "e = None" and fl: "flush_state w st1 = (None, st)"
    by (auto simp: main_def split: option.splits)
  have d0: "distinct (map fst (buckets_of (init_state fs)))" by (simp add: init_state_simps)
  note r = run_rows_ok [OF d0 rr [unfolded e]]
  note f = flush_state_ok [OF r(2) fl]
  have "held st k = stored fs k @ rows_contrib a pf rows k"
    using f(1) [of k] r(1) [of k] by (simp add: held_init)
  then show "stored (tiles st) k = stored fs k @ rows_contrib a pf rows k"
    using f(2) by (simp add: held_def bucket_features_def)
  show "buckets_of st = []" by (rule f(2))
  show "rows_seen st = length rows" using f(3) r(3) by (simp add: init_state_simps)
  show "flush_log st = flush_rows a pf 1 rows @ [length rows]"
    using f(4) r(3) r(4) by (simp add: init_state_simps)
qed

lemma main_corrupt_kept:
  "fs k = Some Corrupt \<Longrightarrow> tiles (snd (main w a pf rows fs)) k = Some Corrupt"
proof -
  assume c: "fs k = Some Corrupt"
  obtain e st1 where rr: "run_rows w a pf rows (init_state fs) = (e, st1)"
    by (cases "run_rows w a pf rows (init_state fs)")
  from run_rows_corrupt_kept [of "init_state fs" k w a pf rows] c rr
  have c1: "tiles st1 k = Some Corrupt" by (simp add: init_state_simps)
  from flush_state_corrupt_kept [OF c1] c1 rr show ?thesis
    by (cases e) (simp_all add: main_def)
qed

lemma main_no_empty:
  "no_empty fs \<Longrightarrow> no_empty (tiles (snd (main w a pf rows fs)))"
proof -
  assume c: "no_empty fs"
  obtain e st1 where rr: "run_rows w a pf rows (init_state fs) = (e, st1)"
    by (cases "run_rows w a pf rows (init_state fs)")
  from run_rows_no_empty [of "init_state fs" w a pf rows] c rr
  have c1: "no_empty (tiles st1)" by (simp add: init_state_simps)
  from flush_state_no_empty [OF c1] c1 rr show ?thesis
    by (cases e) (simp_all add: main_def)
qed

lemma main_no_corrupt:
  "no_corrupt fs \<Longrightarrow> no_corrupt (tiles (snd (main w a pf rows fs)))"
proof -
  assume c: "no_corrupt fs"
  obtain e st1 where rr: "run_rows w a pf rows (init_state fs) = (e, st1)"
    by (cases "run_rows w a pf rows (init_state fs)")
  from run_rows_no_corrupt [of "init_state fs" w a pf rows] c rr
  have c1: "no_corrupt (tiles st1)" by (simp add: init_state_simps)
  from flush_state_no_corrupt [OF c1] c1 rr show ?thesis
    by (cases e) (simp_all add: main_def)
qed

lemma main_good:
  assumes "no_corrupt fs" and "\<not> bad_config a" and "\<forall>k. w k"
  shows "fst (main w a pf rows fs) = None"
proof -
  obtain e st1 where rr: "run_rows w a pf rows (init_state fs) = (e, st1)"
    by (cases "run_rows w a pf rows (init_state fs)")
  from run_rows_good [of "init_state fs" a w pf rows] assms rr
  have e: "e = None" by (simp add: init_state_simps)
  from run_rows_no_corrupt [of "init_state fs" w a pf rows] assms(1) rr
  have c1: "no_corrupt (tiles st1)" by (simp add: init_state_simps)
  from flush_state_succeeds [OF c1 assms(3)] rr e
  show "fst (main w a pf rows fs) = None" by (simp add: main_def)
qed

lemma main_lockstep:
  assumes "appended_to base fs fs'"
  shows "fst (main w a pf rows fs) = fst (main w a pf rows fs') \<and>
    lockstep base (snd (main w a pf rows fs)) (snd (main w a pf rows fs'))"
proof -
  have l0: "lockstep base (init_state fs) (init_state fs')"
    using assms by (simp add: lockstep_def init_state_simps)
  obtain e st1 where r1: "run_rows w a pf rows (init_state fs) = (e, st1)"
    by (cases "run_rows w a pf rows (init_state fs)")
  obtain e' st1' where r2: "run_rows w a pf rows (init_state fs') = (e', st1')"
    by (cases "run_rows w a pf rows (init_state fs')")
  from run_rows_lockstep [OF l0, of w a pf rows] r1 r2
  have e: "e' = e" and l1: "lockstep base st1 st1'" by simp_all
  from flush_state_lockstep [OF l1, of w] r1 r2 e l1 show ?thesis
    by (cases e) (simp_all add: main_def)
qed

lemma main_bad:
  assumes "bad_config a"
  shows "tiles (snd (main w a pf rows fs)) = fs"
    and "fst (main w a pf rows fs) = None \<longleftrightarrow> (\<forall>r\<in>set rows. \<not> accepted a pf r)"
proof -
  obtain e st1 where rr: "run_rows w a pf rows (init_state fs) = (e, st1)"
    by (cases "run_rows w a pf rows (init_state fs)")
  note b = run_rows_bad [OF assms, of w pf rows "init_state fs"]
  have "tiles (snd (main w a pf rows fs)) = fs \<and>
      (fst (main w a pf rows fs) = None \<longleftrightarrow> (\<forall>r\<in>set rows. \<not> accepted a pf r))"
  proof (cases e)
    case None
    with b rr have "tiles st1 = fs" "buckets_of st1 = []" "\<forall>r\<in>set rows. \<not> accepted a pf r"
      by (simp_all add: init_state_simps)
    with rr None show ?thesis by (simp add: main_def flush_state_empty_buckets)
  next
    case (Some err)
    with b rr have "tiles st1 = fs" "\<not> (\<forall>r\<in>set rows. \<not> accepted a pf r)"
      by (simp_all add: init_state_simps)
    with rr Some show ?thesis by (simp add: main_def)
  qed
  then show "tiles (snd (main w a pf rows fs)) = fs"
    and "fst (main w a pf rows fs) = None \<longleftrightarrow> (\<forall>r\<in>set rows. \<not> accepted a pf r)"
    by simp_all
qed

lemma store_eqI:
  assumes "no_corrupt fs1" "no_empty fs1" "no_corrupt fs2" "no_empty fs2"
    and "\<And>k. stored fs1 k = stored fs2 k"
  shows "fs1 = fs2"
proof (rule ext)
  fix k
  have shape: "fs k = None \<and> stored fs k = [] \<or> (\<exists>l. l \<noteq> [] \<and> fs k = Some (FeatureCollection l) \<and> stored fs k = l)"
    if "no_corrupt fs" "no_empty fs" for fs
  proof (cases "fs k")
    case None
    then show ?thesis by (simp add: stored_def)
  next
    case (Some tf)
    show ?thesis
    proof (cases tf)
      case (FeatureCollection l)
      with Some no_emptyD [OF that(2), of k] show ?thesis by (auto simp: stored_def)
    next
      case Corrupt
      with Some no_corruptD [OF that(1), of k] show ?thesis by simp
    qed
  qed
  from shape [OF assms(1,2)] shape [OF assms(3,4)] assms(5) [of k]
  show "fs1 k = fs2 k" by auto
qed

lemma row_coords_batch_update:
  "row_coords (a\<lparr>batch := n\<rparr>) pf r = row_coords a pf r"
  by (simp add: row_coords_def split: option.splits)

lemma accepted_batch_update: "accepted (a\<lparr>batch := n\<rparr>) pf r = accepted a pf r"
  by (simp add: accepted_def row_coords_batch_update)

subsection \<open>The example inputs\<close>

lemma example_accepted:
  "accepted example_args example_float (point_row ''47.0'' ''8.5'')"
  "accepted example_args example_float (point_row ''47.01'' ''8.51'')"
  "\<not> accepted example_args example_float (point_row ''10'' ''200'')"
  by (simp_all add: accepted_def row_coords_def read_float_def example_args_def
      example_float_def point_row_def)

lemma example_not_bad: "\<not> bad_config example_args"
  by (simp add: bad_config_def bad_zoom_def example_args_def)

lemma lonlat_to_tile_origin: "lonlat_to_tile 0 0 0 = Inr (0, 0)"
  by (simp add: lonlat_to_tile_def mercator_tile_def clamp_lat_def lat_limit_def py_int_def Let_def)

lemma lonlat_to_tile_origin_1: "lonlat_to_tile 0 0 1 = Inr (1, 1)"
  by (simp add: lonlat_to_tile_def mercator_tile_def clamp_lat_def lat_limit_def py_int_def Let_def)

lemma origin_row_coords:
  "row_coords (origin_args\<lparr>batch := n\<rparr>) example_float (point_row ''0'' ''0'') = Some (0, 0)"
  by (simp add: row_coords_def read_float_def origin_args_def example_float_def point_row_def)

lemma origin_contrib:
  "rows_contrib (origin_args\<lparr>batch := n\<rparr>) example_float [point_row ''0'' ''0''] (0, 0, 0) = [origin_feature]"
  by (simp add: rows_contrib_def row_contrib_def origin_row_coords feature_contrib_def
      make_feature_def lonlat_to_tile_origin origin_feature_def)
    (simp add: origin_args_def)

lemma rows_contrib_append:
  "rows_contrib a pf (rs1 @ rs2) k = rows_contrib a pf rs1 k @ rows_contrib a pf rs2 k"
  by (simp add: rows_contrib_def)

lemma rows_contrib_Cons:
  "rows_contrib a pf (r # rs) k = row_contrib a pf r k @ rows_contrib a pf rs k"
  by (simp add: rows_contrib_def)

lemma invalid_row_coords:
  assumes "read_float pf r (lat_col a) = None \<or> read_float pf r (lon_col a) = None \<or>
     (\<exists>v. read_float pf r (lat_col a) = Some v \<and> \<not> in_range (- 90) v 90) \<or>
     (\<exists>v. read_float pf r (lon_col a) = Some v \<and> \<not> in_range (- 180) v 180)"
  shows "row_coords a pf r = None"
  using assms by (auto simp: row_coords_def split: option.splits)

lemma all_writable: "\<forall>k. all_writable k"
  by (simp add: all_writable_def)

lemma example_main_ok: "fst (main all_writable example_args example_float rows Map.empty) = None"
  by (rule main_good [OF no_corrupt_empty example_not_bad all_writable])

subsection \<open>Appending to tiles\<close>

lemma flush_buckets_content:
  assumes "distinct (map fst b)" and "flush_buckets w b fs = (None, fs', b')"
  shows "stored fs' k = stored fs k @ bucket_features b k"
proof -
  from assms(2) have "flush_items w b fs = (None, fs')"
    by (cases "flush_items w b fs") (auto simp: flush_buckets_def split: option.splits)
  with assms(1) show ?thesis by (rule flush_items_content)
qed

text \<open>A second run over the same input, into the store the first run left, makes the
  steps of the first run again.\<close>

lemma main_twice:
  "stored (tiles (snd (main w a pf rows (tiles (snd (main w a pf rows Map.empty)))))) k =
   stored (tiles (snd (main w a pf rows Map.empty))) k @
   stored (tiles (snd (main w a pf rows Map.empty))) k"
proof -
  define t1 where "t1 = tiles (snd (main w a pf rows Map.empty))"
  have nc1: "no_corrupt t1"
    unfolding t1_def using no_corrupt_empty by (rule main_no_corrupt)
  have "appended_to t1 Map.empty t1"
    unfolding appended_to_def using nc1 no_corrupt_empty by (simp add: stored_None)
  from main_lockstep [OF this, of w a pf rows]
  have "appended_to t1 (tiles (snd (main w a pf rows Map.empty))) (tiles (snd (main w a pf rows t1)))"
    by (simp add: lockstep_def)
  then have "stored (tiles (snd (main w a pf rows t1))) k =
      stored t1 k @ stored (tiles (snd (main w a pf rows Map.empty))) k"
    unfolding appended_to_def by blast
  then show ?thesis by (simp add: t1_def)
qed

subsection \<open>Changing the batch size\<close>

lemma row_contrib_batch_update:
  "row_contrib (a\<lparr>batch := n\<rparr>) pf r k = row_contrib a pf r k"
  by (simp add: row_contrib_def row_coords_batch_update make_feature_def split: option.splits)

lemma rows_contrib_batch_update:
  "rows_contrib (a\<lparr>batch := n\<rparr>) pf rows k = rows_contrib a pf rows k"
  by (simp add: rows_contrib_def row_contrib_batch_update)

lemma process_row_bad_zoom:
  assumes "bad_zoom a"
  shows "process_row w (a\<lparr>batch := n\<rparr>) pf st r = process_row w a pf st r"
proof (cases "row_coords a pf r")
  case None
  then show ?thesis by (simp add: process_row_def row_coords_batch_update)
next
  case (Some c)
  obtain lat lon where c: "c = (lat, lon)" by (cases c)
  define f where "f = make_feature a r lat lon"
  have mf: "make_feature (a\<lparr>batch := n\<rparr>) r lat lon = f"
    by (simp add: make_feature_def f_def)
  obtain e b where ab: "absorb f [min_zoom a .. max_zoom a] (buckets_of st) = (e, b)"
    by (cases "absorb f [min_zoom a .. max_zoom a] (buckets_of st)")
  from assms absorb_range_raises [of "min_zoom a" "max_zoom a" f "buckets_of st"] ab
  obtain err where "e = Some err" by (auto simp: bad_zoom_def)
  with ab Some c mf show ?thesis
    by (simp add: process_row_def row_coords_batch_update Let_def f_def [symmetric])
qed

lemma run_rows_bad_zoom:
  assumes "bad_zoom a"
  shows "run_rows w (a\<lparr>batch := n\<rparr>) pf rows st = run_rows w a pf rows st"
proof (induction rows arbitrary: st)
  case Nil
  then show ?case by simp
next
  case (Cons r rows)
  obtain e st1 where pr: "process_row w a pf st r = (e, st1)" by (cases "process_row w a pf st r")
  then show ?case using Cons.IH [of st1]
    by (cases e) (simp_all add: process_row_bad_zoom [OF assms])
qed

lemma main_bad_zoom:
  assumes "bad_zoom a"
  shows "main w (a\<lparr>batch := n\<rparr>) pf rows fs = main w a pf rows fs"
  by (simp add: main_def run_rows_bad_zoom [OF assms])

lemma process_row_batch_zero:
  assumes "row_coords a pf r = Some (lat, lon)"
    and "absorb (make_feature a r lat lon) [min_zoom a .. max_zoom a] (buckets_of st) = (None, b)"
    and "batch a = 0"
  shows "process_row w a pf st r =
     (Some ZeroDivisionError, st\<lparr>rows_seen := rows_seen st + 1, buckets_of := b\<rparr>)"
  using assms by (simp add: process_row_def Let_def)

text \<open>Runs from an empty store that end normally leave the store that the input
  determines.\<close>

lemma main_from_empty:
  assumes "fst (main w a pf rows Map.empty) = None"
  shows "stored (tiles (snd (main w a pf rows Map.empty))) k = rows_contrib a pf rows k"
proof -
  from assms obtain st where m: "main w a pf rows Map.empty = (None, st)"
    by (cases "main w a pf rows Map.empty") simp
  from main_ok(1) [OF m, of k] m show ?thesis by (simp add: stored_None)
qed

lemma main_from_empty_eq:
  assumes "fst (main w a pf rows Map.empty) = None" and "fst (main w' a' pf rows Map.empty) = None"
    and "\<And>k. rows_contrib a' pf rows k = rows_contrib a pf rows k"
  shows "tiles (snd (main w a pf rows Map.empty)) = tiles (snd (main w' a' pf rows Map.empty))"
proof (rule store_eqI)
  fix k
  show "stored (tiles (snd (main w a pf rows Map.empty))) k =
      stored (tiles (snd (main w' a' pf rows Map.empty))) k"
    by (simp only: main_from_empty [OF assms(1)] main_from_empty [OF assms(2)] assms(3))
qed (simp_all add: main_no_corrupt main_no_empty no_corrupt_empty no_empty_empty)

subsection \<open>The flush points\<close>

lemma flush_rows_sorted: "sorted (flush_rows a pf n rows) \<and> distinct (flush_rows a pf n rows)"
proof -
  have "sorted (map fst (enumerate n rows))" and "distinct (map fst (enumerate n rows))"
    by simp_all
  then show ?thesis
    unfolding flush_rows_def by (intro conjI sorted_filter distinct_map_filter)
qed

lemma flush_rows_only:
  assumes "i \<in> set (flush_rows a pf n rows)"
  shows "n \<le> i \<and> i < n + length rows \<and> int i mod batch a = 0"
proof -
  from assms obtain r where "(i, r) \<in> set (enumerate n rows)" and "int i mod batch a = 0"
    by (auto simp: flush_rows_def)
  then show ?thesis by (auto simp: in_set_enumerate_eq)
qed

lemma flush_rows_every:
  assumes "n \<le> i" and "i < n + length rows" and "accepted a pf (rows ! (i - n))"
    and "int i mod batch a = 0"
  shows "i \<in> set (flush_rows a pf n rows)"
proof -
  from assms(1,2) have "(i, rows ! (i - n)) \<in> set (enumerate n rows)"
    by (simp add: in_set_enumerate_eq)
  with assms(3,4) have "(i, rows ! (i - n)) \<in>
      set (filter (\<lambda>(i, r). accepted a pf r \<and> int i mod batch a = 0) (enumerate n rows))"
    by simp
  then have "fst (i, rows ! (i - n)) \<in> set (flush_rows a pf n rows)"
    unfolding flush_rows_def set_map by (rule imageI)
  then show ?thesis by simp
qed

subsection \<open>A tile that cannot be written\<close>

lemma process_row_flush:
  assumes "row_coords a pf r = Some (lat, lon)"
    and "absorb (make_feature a r lat lon) [min_zoom a .. max_zoom a] (buckets_of st) = (None, b)"
    and "batch a \<noteq> 0" and "int (rows_seen st + 1) mod batch a = 0"
  shows "process_row w a pf st r = flush_state w (st\<lparr>rows_seen := rows_seen st + 1, buckets_of := b\<rparr>)"
  using assms by (simp add: process_row_def Let_def)

lemma process_row_no_flush:
  assumes "row_coords a pf r = Some (lat, lon)"
    and "absorb (make_feature a r lat lon) [min_zoom a .. max_zoom a] (buckets_of st) = (None, b)"
    and "batch a \<noteq> 0" and "int (rows_seen st + 1) mod batch a \<noteq> 0"
  shows "process_row w a pf st r = (None, st\<lparr>rows_seen := rows_seen st + 1, buckets_of := b\<rparr>)"
  using assms by (simp add: process_row_def Let_def)

lemma two_zoom_row_coords:
  "row_coords (two_zoom_args\<lparr>batch := n\<rparr>) example_float (point_row ''0'' ''0'') = Some (0, 0)"
  by (simp add: row_coords_def read_float_def two_zoom_args_def example_float_def point_row_def)

lemma two_zoom_feature:
  "make_feature (two_zoom_args\<lparr>batch := n\<rparr>) (point_row ''0'' ''0'') 0 0 = origin_feature"
  by (simp add: make_feature_def origin_feature_def two_zoom_args_def)

lemma two_zoom_range:
  "[min_zoom (two_zoom_args\<lparr>batch := n\<rparr>) .. max_zoom (two_zoom_args\<lparr>batch := n\<rparr>)] = [0, 1]"
  by (simp add: two_zoom_args_def upto.simps)

lemma two_zoom_absorb_first:
  "absorb origin_feature [0, 1] [] =
     (None, [((0, 0, 0), [origin_feature]), ((1, 1, 1), [origin_feature])])"
  by (simp add: lonlat_to_tile_origin lonlat_to_tile_origin_1 origin_feature_def)

lemma two_zoom_absorb_second:
  "absorb origin_feature [0, 1] [((0, 0, 0), [origin_feature]), ((1, 1, 1), [origin_feature])] =
     (None, [((0, 0, 0), [origin_feature, origin_feature]),
             ((1, 1, 1), [origin_feature, origin_feature])])"
  by (simp add: lonlat_to_tile_origin lonlat_to_tile_origin_1 origin_feature_def)

text \<open>When the tile \<open>(1, 1, 1)\<close> cannot be written, the tile \<open>(0, 0, 0)\<close> is left with one
  feature by a run with batch size 1, which fails in the flush after the first row,
  and with two features by a run with batch size 2, which fails in the flush after
  the second row.\<close>

lemma unwritable_tile_batch_1:
  "main (all_but (1, 1, 1)) (two_zoom_args\<lparr>batch := 1\<rparr>) example_float
      [point_row ''0'' ''0'', point_row ''0'' ''0''] Map.empty =
   (Some OSError,
    \<lparr>buckets_of = [((0, 0, 0), [origin_feature]), ((1, 1, 1), [origin_feature])],
     rows_seen = 1, tiles = [(0, 0, 0) \<mapsto> FeatureCollection [origin_feature]], flush_log = [1]\<rparr>)"
proof -
  have ab: "absorb (make_feature (two_zoom_args\<lparr>batch := 1\<rparr>) (point_row ''0'' ''0'') 0 0)
      [min_zoom (two_zoom_args\<lparr>batch := 1\<rparr>) .. max_zoom (two_zoom_args\<lparr>batch := 1\<rparr>)]
      (buckets_of (init_state Map.empty)) =
      (None, [((0, 0, 0), [origin_feature]), ((1, 1, 1), [origin_feature])])"
    unfolding two_zoom_feature two_zoom_range init_state_simps by (rule two_zoom_absorb_first)
  have "process_row (all_but (1, 1, 1)) (two_zoom_args\<lparr>batch := 1\<rparr>) example_float
      (init_state Map.empty) (point_row ''0'' ''0'') =
    flush_state (all_but (1, 1, 1)) ((init_state Map.empty)\<lparr>rows_seen := rows_seen (init_state Map.empty) + 1,
      buckets_of := [((0, 0, 0), [origin_feature]), ((1, 1, 1), [origin_feature])]\<rparr>)"
    by (rule process_row_flush [OF two_zoom_row_coords ab]) simp_all
  also have "\<dots> = (Some OSError,
    \<lparr>buckets_of = [((0, 0, 0), [origin_feature]), ((1, 1, 1), [origin_feature])],
     rows_seen = 1, tiles = [(0, 0, 0) \<mapsto> FeatureCollection [origin_feature]], flush_log = [1]\<rparr>)"
    by (simp add: flush_state_alt init_state_def all_but_def)
  finally show ?thesis by (simp add: main_def)
qed

lemma unwritable_tile_batch_2:
  "main (all_but (1, 1, 1)) (two_zoom_args\<lparr>batch := 2\<rparr>) example_float
      [point_row ''0'' ''0'', point_row ''0'' ''0''] Map.empty =
   (Some OSError,
    \<lparr>buckets_of = [((0, 0, 0), [origin_feature, origin_feature]),
                   ((1, 1, 1), [origin_feature, origin_feature])],
     rows_seen = 2, tiles = [(0, 0, 0) \<mapsto> FeatureCollection [origin_feature, origin_feature]],
     flush_log = [2]\<rparr>)"
proof -
  define st1 where "st1 = \<lparr>buckets_of = [((0, 0, 0), [origin_feature]), ((1, 1, 1), [origin_feature])],
     rows_seen = 1, tiles = Map.empty, flush_log = []\<rparr>"
  have ab1: "absorb (make_feature (two_zoom_args\<lparr>batch := 2\<rparr>) (point_row ''0'' ''0'') 0 0)
      [min_zoom (two_zoom_args\<lparr>batch := 2\<rparr>) .. max_zoom (two_zoom_args\<lparr>batch := 2\<rparr>)]
      (buckets_of (init_state Map.empty)) =
      (None, [((0, 0, 0), [origin_feature]), ((1, 1, 1), [origin_feature])])"
    unfolding two_zoom_feature two_zoom_range init_state_simps by (rule two_zoom_absorb_first)
  have "process_row (all_but (1, 1, 1)) (two_zoom_args\<lparr>batch := 2\<rparr>) example_float
      (init_state Map.empty) (point_row ''0'' ''0'') =
    (None, (init_state Map.empty)\<lparr>rows_seen := rows_seen (init_state Map.empty) + 1,
      buckets_of := [((0, 0, 0), [origin_feature]), ((1, 1, 1), [origin_feature])]\<rparr>)"
    by (rule process_row_no_flush [OF two_zoom_row_coords ab1]) (simp_all add: init_state_def)
  then have p1: "process_row (all_but (1, 1, 1)) (two_zoom_args\<lparr>batch := 2\<rparr>) example_float
      (init_state Map.empty) (point_row ''0'' ''0'') = (None, st1)"
    by (simp add: init_state_def st1_def)
  have bs1: "buckets_of st1 = [((0, 0, 0), [origin_feature]), ((1, 1, 1), [origin_feature])]"
    by (simp add: st1_def)
  have ab2: "absorb (make_feature (two_zoom_args\<lparr>batch := 2\<rparr>) (point_row ''0'' ''0'') 0 0)
      [min_zoom (two_zoom_args\<lparr>batch := 2\<rparr>) .. max_zoom (two_zoom_args\<lparr>batch := 2\<rparr>)]
      (buckets_of st1) =
      (None, [((0, 0, 0), [origin_feature, origin_feature]),
              ((1, 1, 1), [origin_feature, origin_feature])])"
    unfolding two_zoom_feature two_zoom_range bs1 by (rule two_zoom_absorb_second)
  have "process_row (all_but (1, 1, 1)) (two_zoom_args\<lparr>batch := 2\<rparr>) example_float st1
      (point_row ''0'' ''0'') =
    flush_state (all_but (1, 1, 1)) (st1\<lparr>rows_seen := rows_seen st1 + 1,
      buckets_of := [((0, 0, 0), [origin_feature, origin_feature]),
                     ((1, 1, 1), [origin_feature, origin_feature])]\<rparr>)"
    by (rule process_row_flush [OF two_zoom_row_coords ab2]) (simp_all add: st1_def)
  also have "\<dots> = (Some OSError,
    \<lparr>buckets_of = [((0, 0, 0), [origin_feature, origin_feature]),
                   ((1, 1, 1), [origin_feature, origin_feature])],
     rows_seen = 2, tiles = [(0, 0, 0) \<mapsto> FeatureCollection [origin_feature, origin_feature]],
     flush_log = [2]\<rparr>)"
    by (simp add: flush_state_alt st1_def all_but_def)
  finally show ?thesis using p1 by (simp add: main_def)
qed

lemma unwritable_tile_batch_dependent:
  "fst (main (all_but (1, 1, 1)) (two_zoom_args\<lparr>batch := 1\<rparr>) example_float
      [point_row ''0'' ''0'', point_row ''0'' ''0''] Map.empty) = Some OSError \<and>
   fst (main (all_but (1, 1, 1)) (two_zoom_args\<lparr>batch := 2\<rparr>) example_float
      [point_row ''0'' ''0'', point_row ''0'' ''0''] Map.empty) = Some OSError \<and>
   stored (tiles (snd (main (all_but (1, 1, 1)) (two_zoom_args\<lparr>batch := 1\<rparr>) example_float
      [point_row ''0'' ''0'', point_row ''0'' ''0''] Map.empty))) (0, 0, 0) = [origin_feature] \<and>
   stored (tiles (snd (main (all_but (1, 1, 1)) (two_zoom_args\<lparr>batch := 2\<rparr>) example_float
      [point_row ''0'' ''0'', point_row ''0'' ''0''] Map.empty))) (0, 0, 0) =
      [origin_feature, origin_feature]"
  by (simp add: unwritable_tile_batch_1 unwritable_tile_batch_2 stored_def)

section \<open>Claims\<close>

subsection \<open>Tile coordinate mapper\<close>

text \<open>
  C1. The claim is that for every longitude in \<open>[-180, 180]\<close>, latitude in \<open>[-90, 90]\<close>
  and zoom \<open>z \<ge> 0\<close> the mapper returns \<open>(x, y)\<close> with \<open>0 \<le> x < 2^z\<close> and
  \<open>0 \<le> y < 2^z\<close>. Both bounds fail on inputs that the range check of \<^verbatim>\<open>main\<close> accepts.
  At longitude 180 the column is \<open>2^z\<close>: at latitude 0 and zoom 5 the result is
  \<open>(32, 16)\<close>, and 32 is not below \<open>2^5\<close> (every operation at this input is exact in
  floating point as well). At latitude 90 and zoom 5 the row is negative: the code
  divides \<open>ln ((1 + s) / (1 - s))\<close> by \<open>pi\<close>, where the Web Mercator row divides it by
  \<open>2 * pi\<close>, so that at the clamped latitude the scaled value is near \<open>-16\<close> instead
  of 0.
\<close>

theorem lonlat_to_tile_out_of_range:
  "lonlat_to_tile 180 0 5 = Inr (32, 16) \<and> \<not> (32 < (2::int) ^ 5) \<and>
   (\<exists>y. lonlat_to_tile 0 90 5 = Inr (16, y) \<and> y < 0)"
proof -
  have "lonlat_to_tile 180 0 5 = Inr (32, 16)"
    by (simp add: lonlat_to_tile_def mercator_tile_def clamp_lat_def lat_limit_def py_int_def
        Let_def)
  moreover from lonlat_to_tile_pole obtain y
    where "lonlat_to_tile 0 90 5 = Inr (16, y)" and "y \<le> - 4" by blast
  then have "\<exists>y. lonlat_to_tile 0 90 5 = Inr (16, y) \<and> y < 0" by auto
  ultimately show ?thesis by simp
qed

text \<open>
  C9. The mapper clamps the latitude to \<open>[-85.05112878, 85.05112878]\<close> before
  projecting. For every longitude and zoom, a latitude above 85.05112878 gives the
  result of 85.05112878 and a latitude below -85.05112878 the result of
  -85.05112878, while a latitude inside the band is projected as it is. No latitude
  is rejected: when the mapper raises, it raises the same exception at every other
  latitude (the exceptions come from the zoom), and for a longitude in
  \<open>[-180, 180]\<close> and a zoom from 0 to 1023 it returns a pair whatever the latitude.
\<close>

theorem latitude_clamped:
  "(85.05112878 < lat \<longrightarrow> lonlat_to_tile lon lat z = lonlat_to_tile lon 85.05112878 z) \<and>
   (lat < - 85.05112878 \<longrightarrow> lonlat_to_tile lon lat z = lonlat_to_tile lon (- 85.05112878) z) \<and>
   (- 85.05112878 \<le> lat \<and> lat \<le> 85.05112878 \<longrightarrow>
      lonlat_to_tile lon lat z = mercator_tile lon lat z) \<and>
   (lonlat_to_tile lon lat z = Inl e \<longrightarrow> lonlat_to_tile lon lat' z = Inl e) \<and>
   (- 180 \<le> lon \<and> lon \<le> 180 \<and> 0 \<le> z \<and> z < 1024 \<longrightarrow>
      (\<exists>x y. lonlat_to_tile lon lat z = Inr (x, y)))"
proof (intro conjI impI)
  assume "85.05112878 < lat"
  then have "clamp_lat lat = clamp_lat 85.05112878"
    using clamp_lat_above [of lat] by (simp add: lat_limit_def)
  then show "lonlat_to_tile lon lat z = lonlat_to_tile lon 85.05112878 z"
    by (rule lonlat_to_tile_cong)
next
  assume "lat < - 85.05112878"
  then have "clamp_lat lat = clamp_lat (- 85.05112878)"
    using clamp_lat_below [of lat] by (simp add: lat_limit_def)
  then show "lonlat_to_tile lon lat z = lonlat_to_tile lon (- 85.05112878) z"
    by (rule lonlat_to_tile_cong)
next
  assume "- 85.05112878 \<le> lat \<and> lat \<le> 85.05112878"
  then have "clamp_lat lat = lat"
    using clamp_lat_inside [of lat] by (simp add: lat_limit_def)
  then show "lonlat_to_tile lon lat z = mercator_tile lon lat z"
    by (simp add: lonlat_to_tile_def)
next
  assume e: "lonlat_to_tile lon lat z = Inl e"
  with lonlat_to_tile_raises [of lon lat z] have "z < 0 \<or> 1024 \<le> z" by blast
  then show "lonlat_to_tile lon lat' z = Inl e"
  proof
    assume "z < 0"
    with e show ?thesis by (simp add: lonlat_to_tile_negative)
  next
    assume "1024 \<le> z"
    with e show ?thesis by (simp add: lonlat_to_tile_overflow)
  qed
next
  assume "- 180 \<le> lon \<and> lon \<le> 180 \<and> 0 \<le> z \<and> z < 1024"
  then show "\<exists>x y. lonlat_to_tile lon lat z = Inr (x, y)"
    by (simp add: lonlat_to_tile_ok)
qed

theorem latitude_clamped_witness:
  "(85.05112878 :: real) < 89 \<and> lonlat_to_tile 8.5 89 6 = lonlat_to_tile 8.5 85.05112878 6 \<and>
   (- 89 :: real) < - 85.05112878 \<and>
   lonlat_to_tile 8.5 (- 89) 6 = lonlat_to_tile 8.5 (- 85.05112878) 6 \<and>
   (- 85.05112878 :: real) \<le> 47 \<and> (47 :: real) \<le> 85.05112878 \<and>
   lonlat_to_tile 8.5 47 6 = mercator_tile 8.5 47 6 \<and>
   lonlat_to_tile 8.5 89 (- 1) = Inl ValueError \<and> lonlat_to_tile 8.5 47 (- 1) = Inl ValueError \<and>
   (- 180 :: real) \<le> 8.5 \<and> (8.5 :: real) \<le> 180 \<and> (0 :: int) \<le> 6 \<and> (6 :: int) < 1024 \<and>
   (\<exists>x y. lonlat_to_tile 8.5 89 6 = Inr (x, y))"
proof -
  note a = latitude_clamped [of 89 "8.5" 6 ValueError 47]
  note b = latitude_clamped [of "- 89" "8.5" 6 ValueError 47]
  note c = latitude_clamped [of 47 "8.5" 6 ValueError 47]
  note d = latitude_clamped [of 89 "8.5" "- 1" ValueError 47]
  have e: "lonlat_to_tile 8.5 89 (- 1) = Inl ValueError"
    by (simp add: lonlat_to_tile_negative)
  have h1: "(85.05112878 :: real) < 89" and h2: "(- 89 :: real) < - 85.05112878"
    and h3: "(- 85.05112878 :: real) \<le> 47 \<and> (47 :: real) \<le> 85.05112878"
    and h5: "(- 180 :: real) \<le> 8.5 \<and> (8.5 :: real) \<le> 180 \<and> (0 :: int) \<le> 6 \<and> (6 :: int) < 1024"
    by simp_all
  from a h1 have 1: "lonlat_to_tile 8.5 89 6 = lonlat_to_tile 8.5 85.05112878 6" by blast
  from a h5 have 5: "\<exists>x y. lonlat_to_tile 8.5 89 6 = Inr (x, y)" by blast
  from b h2 have 2: "lonlat_to_tile 8.5 (- 89) 6 = lonlat_to_tile 8.5 (- 85.05112878) 6" by blast
  from c h3 have 3: "lonlat_to_tile 8.5 47 6 = mercator_tile 8.5 47 6" by blast
  from d e have 4: "lonlat_to_tile 8.5 47 (- 1) = Inl ValueError" by blast
  from h1 1 h2 2 h3 3 e 4 h5 5 show ?thesis by blast
qed

subsection \<open>Tile store writer\<close>

text \<open>
  C10. When \<^verbatim>\<open>flush_buckets\<close> raises while it processes a key (an existing tile that
  cannot be read, or a directory or file that cannot be written), the bucket
  dictionary keeps all of its entries; it is cleared only when every key has been
  written. So the state in which a flush of the driver fails still has every buffered
  record.
\<close>

theorem failed_flush_keeps_buckets:
  "(fst (flush_buckets w b fs) \<noteq> None \<longrightarrow> snd (snd (flush_buckets w b fs)) = b) \<and>
   (fst (flush_buckets w b fs) = None \<longrightarrow> snd (snd (flush_buckets w b fs)) = []) \<and>
   (fst (flush_state w st) \<noteq> None \<longrightarrow> buckets_of (snd (flush_state w st)) = buckets_of st)"
proof (intro conjI impI)
  obtain e fs' where fi: "flush_items w b fs = (e, fs')" by (cases "flush_items w b fs")
  {
    assume "fst (flush_buckets w b fs) \<noteq> None"
    with fi show "snd (snd (flush_buckets w b fs)) = b"
      by (cases e) (simp_all add: flush_buckets_def)
  next
    assume "fst (flush_buckets w b fs) = None"
    with fi show "snd (snd (flush_buckets w b fs)) = []"
      by (cases e) (simp_all add: flush_buckets_def)
  }
next
  assume "fst (flush_state w st) \<noteq> None"
  then show "buckets_of (snd (flush_state w st)) = buckets_of st"
    by (cases "flush_items w (buckets_of st) (tiles st)")
      (auto simp: flush_state_alt split: option.splits)
qed

theorem failed_flush_keeps_buckets_witness:
  "fst (flush_buckets all_writable [((0, 0, 0), [origin_feature])] [(0, 0, 0) \<mapsto> Corrupt]) \<noteq> None \<and>
   snd (snd (flush_buckets all_writable [((0, 0, 0), [origin_feature])] [(0, 0, 0) \<mapsto> Corrupt])) =
     [((0, 0, 0), [origin_feature])] \<and>
   fst (flush_buckets (all_but (0, 0, 0)) [((0, 0, 0), [origin_feature])] Map.empty) \<noteq> None \<and>
   snd (snd (flush_buckets (all_but (0, 0, 0)) [((0, 0, 0), [origin_feature])] Map.empty)) =
     [((0, 0, 0), [origin_feature])] \<and>
   fst (flush_buckets all_writable [((0, 0, 0), [origin_feature])] Map.empty) = None \<and>
   snd (snd (flush_buckets all_writable [((0, 0, 0), [origin_feature])] Map.empty)) = [] \<and>
   fst (flush_state all_writable \<lparr>buckets_of = [((0, 0, 0), [origin_feature])], rows_seen = 1,
          tiles = [(0, 0, 0) \<mapsto> Corrupt], flush_log = []\<rparr>) \<noteq> None \<and>
   buckets_of (snd (flush_state all_writable \<lparr>buckets_of = [((0, 0, 0), [origin_feature])],
          rows_seen = 1, tiles = [(0, 0, 0) \<mapsto> Corrupt], flush_log = []\<rparr>)) =
     [((0, 0, 0), [origin_feature])]"
proof -
  have a: "fst (flush_buckets all_writable [((0, 0, 0), [origin_feature])] [(0, 0, 0) \<mapsto> Corrupt]) \<noteq> None"
    by (simp add: flush_buckets_def)
  have a': "fst (flush_buckets (all_but (0, 0, 0)) [((0, 0, 0), [origin_feature])] Map.empty) \<noteq> None"
    by (simp add: flush_buckets_def all_but_def)
  have b: "fst (flush_buckets all_writable [((0, 0, 0), [origin_feature])] Map.empty) = None"
    by (simp add: flush_buckets_def all_writable_def)
  have c: "fst (flush_state all_writable \<lparr>buckets_of = [((0, 0, 0), [origin_feature])], rows_seen = 1,
          tiles = [(0, 0, 0) \<mapsto> Corrupt], flush_log = []\<rparr>) \<noteq> None"
    by (simp add: flush_state_def flush_buckets_def)
  from a a' b c
    failed_flush_keeps_buckets [of all_writable "[((0, 0, 0), [origin_feature])]"
      "[(0, 0, 0) \<mapsto> Corrupt]"
      "\<lparr>buckets_of = [((0, 0, 0), [origin_feature])], rows_seen = 1,
          tiles = [(0, 0, 0) \<mapsto> Corrupt], flush_log = []\<rparr>"]
    failed_flush_keeps_buckets [of "all_but (0, 0, 0)" "[((0, 0, 0), [origin_feature])]" Map.empty]
    failed_flush_keeps_buckets [of all_writable "[((0, 0, 0), [origin_feature])]" Map.empty]
  show ?thesis by simp
qed

text \<open>
  C5. When the buckets hold features for a key whose tile file exists and cannot be
  read as a document with a feature list, \<^verbatim>\<open>flush_buckets\<close> raises and leaves that
  file as it is. The exception is the one of the read, unless the write of a key
  flushed before it has failed already; it is the one of the read whenever every key
  of the buckets can be written. A run whose input has a feature for such a key ends
  with an exception, the file still in place: it is never replaced by a fresh
  collection.
\<close>

theorem corrupt_tile_aborts:
  "(fs k = Some Corrupt \<and> bucket_features b k \<noteq> [] \<longrightarrow>
      fst (flush_buckets w b fs) \<noteq> None \<and>
      (fst (flush_buckets w b fs) = Some TileReadError \<or> fst (flush_buckets w b fs) = Some OSError) \<and>
      ((\<forall>k'\<in>set (map fst b). w k') \<longrightarrow> fst (flush_buckets w b fs) = Some TileReadError) \<and>
      fst (snd (flush_buckets w b fs)) k = Some Corrupt) \<and>
   (fs k = Some Corrupt \<and> rows_contrib a pf rows k \<noteq> [] \<longrightarrow>
      fst (main w a pf rows fs) \<noteq> None \<and>
      tiles (snd (main w a pf rows fs)) k = Some Corrupt)"
proof (intro conjI impI)
  assume h: "fs k = Some Corrupt \<and> bucket_features b k \<noteq> []"
  obtain e fs' where fi: "flush_items w b fs = (e, fs')" by (cases "flush_items w b fs")
  from flush_items_corrupt_hit [of fs k b w] h fi have ne: "e \<noteq> None" by simp
  from flush_items_corrupt_kept [of fs k w b] h fi have kept: "fs' k = Some Corrupt" by simp
  from ne fi show "fst (flush_buckets w b fs) \<noteq> None"
    by (cases e) (simp_all add: flush_buckets_def)
  from ne fi flush_items_error_kinds [of w b fs]
  show "fst (flush_buckets w b fs) = Some TileReadError \<or> fst (flush_buckets w b fs) = Some OSError"
    by (cases e) (auto simp: flush_buckets_def)
  from kept fi show "fst (snd (flush_buckets w b fs)) k = Some Corrupt"
    by (cases e) (simp_all add: flush_buckets_def)
  {
    assume "\<forall>k'\<in>set (map fst b). w k'"
    from flush_items_error [OF this, of fs] ne fi
    show "fst (flush_buckets w b fs) = Some TileReadError"
      by (cases e) (auto simp: flush_buckets_def)
  }
next
  assume h: "fs k = Some Corrupt \<and> rows_contrib a pf rows k \<noteq> []"
  then have kept: "tiles (snd (main w a pf rows fs)) k = Some Corrupt"
    by (simp add: main_corrupt_kept)
  then show "tiles (snd (main w a pf rows fs)) k = Some Corrupt" .
  show "fst (main w a pf rows fs) \<noteq> None"
  proof
    assume "fst (main w a pf rows fs) = None"
    then obtain st where m: "main w a pf rows fs = (None, st)"
      by (cases "main w a pf rows fs") simp
    from main_ok(1) [OF m, of k] h have "stored (tiles st) k \<noteq> []" by simp
    moreover from kept m have "stored (tiles st) k = []" by (simp add: stored_def)
    ultimately show False by simp
  qed
qed

theorem corrupt_tile_aborts_witness:
  "[(0, 0, 0) \<mapsto> Corrupt] (0, 0, 0) = Some Corrupt \<and>
   bucket_features [((0, 0, 0), [origin_feature])] (0, 0, 0) \<noteq> [] \<and>
   all_writable (0, 0, 0) \<and>
   fst (flush_buckets all_writable [((0, 0, 0), [origin_feature])] [(0, 0, 0) \<mapsto> Corrupt]) =
     Some TileReadError \<and>
   fst (snd (flush_buckets all_writable [((0, 0, 0), [origin_feature])] [(0, 0, 0) \<mapsto> Corrupt]))
     (0, 0, 0) = Some Corrupt \<and>
   rows_contrib origin_args example_float [point_row ''0'' ''0''] (0, 0, 0) \<noteq> [] \<and>
   fst (main all_writable origin_args example_float [point_row ''0'' ''0''] [(0, 0, 0) \<mapsto> Corrupt])
     \<noteq> None \<and>
   tiles (snd (main all_writable origin_args example_float [point_row ''0'' ''0'']
     [(0, 0, 0) \<mapsto> Corrupt])) (0, 0, 0) = Some Corrupt"
proof -
  have c: "[(0, 0, 0) \<mapsto> Corrupt] (0::int, 0::int, 0::int) = Some Corrupt" by simp
  have b: "bucket_features [((0, 0, 0), [origin_feature])] (0, 0, 0) \<noteq> []"
    by (simp add: bucket_features_def)
  have w: "\<forall>k'\<in>set (map fst [((0 :: int, 0 :: int, 0 :: int), [origin_feature])]). all_writable k'"
    by (simp add: all_writable_def)
  have r: "rows_contrib origin_args example_float [point_row ''0'' ''0''] (0, 0, 0) \<noteq> []"
    using origin_contrib [of 1] by (simp add: origin_args_def)
  have w0: "all_writable (0, 0, 0)" by (simp add: all_writable_def)
  from corrupt_tile_aborts [of "[(0, 0, 0) \<mapsto> Corrupt]" "(0, 0, 0)"
      "[((0, 0, 0), [origin_feature])]" all_writable origin_args example_float
      "[point_row ''0'' ''0'']"] c b w w0 r
  show ?thesis by simp
qed

text \<open>
  C4. Flushing buckets into a store where the tile of a key is absent, and then
  flushing a second set of buckets, leaves for that key a tile whose features are
  those of the first flush followed by those of the second, each in its order, so
  that their number is the sum of both; and running the pipeline a second time over
  the same input into the directory that the first run filled gives, for every key,
  the features of the first run twice, so that every tile's feature count doubles
  (also when the runs end with an exception, the same writes failing in both).
\<close>

theorem flush_appends:
  "(distinct (map fst b1) \<and> distinct (map fst b2) \<and> fs k = None \<and> bucket_features b1 k \<noteq> [] \<and>
    flush_buckets w b1 fs = (None, fs1, c1) \<and> flush_buckets w' b2 fs1 = (None, fs2, c2) \<longrightarrow>
      fs1 k = Some (FeatureCollection (bucket_features b1 k)) \<and>
      fs2 k = Some (FeatureCollection (bucket_features b1 k @ bucket_features b2 k)) \<and>
      length (stored fs2 k) = length (bucket_features b1 k) + length (bucket_features b2 k)) \<and>
   stored (tiles (snd (main w a pf rows (tiles (snd (main w a pf rows Map.empty)))))) k' =
     stored (tiles (snd (main w a pf rows Map.empty))) k' @
     stored (tiles (snd (main w a pf rows Map.empty))) k' \<and>
   length (stored (tiles (snd (main w a pf rows (tiles (snd (main w a pf rows Map.empty)))))) k') =
     2 * length (stored (tiles (snd (main w a pf rows Map.empty))) k')"
proof (intro conjI impI)
  assume h: "distinct (map fst b1) \<and> distinct (map fst b2) \<and> fs k = None \<and>
    bucket_features b1 k \<noteq> [] \<and>
    flush_buckets w b1 fs = (None, fs1, c1) \<and> flush_buckets w' b2 fs1 = (None, fs2, c2)"
  then have d1: "distinct (map fst b1)" and d2: "distinct (map fst b2)" and fresh: "fs k = None"
    and ne: "bucket_features b1 k \<noteq> []"
    and f1: "flush_buckets w b1 fs = (None, fs1, c1)"
    and f2: "flush_buckets w' b2 fs1 = (None, fs2, c2)"
    by simp_all
  from flush_buckets_content [OF d1 f1, of k] fresh
  have s1: "stored fs1 k = bucket_features b1 k" by (simp add: stored_None)
  from flush_buckets_content [OF d2 f2, of k] s1
  have s2: "stored fs2 k = bucket_features b1 k @ bucket_features b2 k" by simp
  from s1 ne stored_nonempty [of fs1 k]
  show "fs1 k = Some (FeatureCollection (bucket_features b1 k))" by simp
  from s2 ne stored_nonempty [of fs2 k]
  show "fs2 k = Some (FeatureCollection (bucket_features b1 k @ bucket_features b2 k))" by simp
  from s2 show "length (stored fs2 k) = length (bucket_features b1 k) + length (bucket_features b2 k)"
    by simp
next
  show "stored (tiles (snd (main w a pf rows (tiles (snd (main w a pf rows Map.empty)))))) k' =
     stored (tiles (snd (main w a pf rows Map.empty))) k' @
     stored (tiles (snd (main w a pf rows Map.empty))) k'"
    by (rule main_twice)
  then show "length (stored (tiles (snd (main w a pf rows (tiles (snd (main w a pf rows Map.empty)))))) k') =
     2 * length (stored (tiles (snd (main w a pf rows Map.empty))) k')"
    by simp
qed

theorem flush_appends_witness:
  "distinct (map fst [((0, 0, 0), [origin_feature])]) \<and>
   distinct (map fst [((0, 0, 0), [origin_feature\<lparr>lon_of := 1\<rparr>])]) \<and>
   Map.empty (0 :: int, 0 :: int, 0 :: int) = (None :: tile_file option) \<and>
   bucket_features [((0, 0, 0), [origin_feature])] (0, 0, 0) \<noteq> [] \<and>
   flush_buckets all_writable [((0, 0, 0), [origin_feature])] Map.empty =
     (None, [(0, 0, 0) \<mapsto> FeatureCollection [origin_feature]], []) \<and>
   flush_buckets all_writable [((0, 0, 0), [origin_feature\<lparr>lon_of := 1\<rparr>])]
       [(0, 0, 0) \<mapsto> FeatureCollection [origin_feature]] =
     (None, [(0, 0, 0) \<mapsto> FeatureCollection [origin_feature, origin_feature\<lparr>lon_of := 1\<rparr>]], []) \<and>
   [(0, 0, 0) \<mapsto> FeatureCollection [origin_feature, origin_feature\<lparr>lon_of := 1\<rparr>]] (0, 0, 0) =
     Some (FeatureCollection (bucket_features [((0, 0, 0), [origin_feature])] (0, 0, 0) @
        bucket_features [((0, 0, 0), [origin_feature\<lparr>lon_of := 1\<rparr>])] (0, 0, 0))) \<and>
   length (stored (tiles (snd (main all_writable origin_args example_float [point_row ''0'' ''0'']
       (tiles (snd (main all_writable origin_args example_float [point_row ''0'' ''0''] Map.empty))))))
       (0, 0, 0)) =
     2 * length (stored (tiles (snd (main all_writable origin_args example_float
       [point_row ''0'' ''0''] Map.empty))) (0, 0, 0))"
proof -
  have f1: "flush_buckets all_writable [((0, 0, 0), [origin_feature])] Map.empty =
     (None, [(0, 0, 0) \<mapsto> FeatureCollection [origin_feature]], [])"
    by (simp add: flush_buckets_def all_writable_def)
  have f2: "flush_buckets all_writable [((0, 0, 0), [origin_feature\<lparr>lon_of := 1\<rparr>])]
       [(0, 0, 0) \<mapsto> FeatureCollection [origin_feature]] =
     (None, [(0, 0, 0) \<mapsto> FeatureCollection [origin_feature, origin_feature\<lparr>lon_of := 1\<rparr>]], [])"
    by (simp add: flush_buckets_def all_writable_def)
  have ne: "bucket_features [((0, 0, 0), [origin_feature])] (0, 0, 0) \<noteq> []"
    by (simp add: bucket_features_def)
  note t = flush_appends [of "[((0, 0, 0), [origin_feature])]"
      "[((0, 0, 0), [origin_feature\<lparr>lon_of := 1\<rparr>])]" Map.empty "(0, 0, 0)"
      all_writable
      "[(0, 0, 0) \<mapsto> FeatureCollection [origin_feature]]" "[]" all_writable
      "[(0, 0, 0) \<mapsto> FeatureCollection [origin_feature, origin_feature\<lparr>lon_of := 1\<rparr>]]" "[]"
      origin_args example_float "[point_row ''0'' ''0'']" "(0, 0, 0)"]
  from t f1 f2 ne show ?thesis by simp
qed

subsection \<open>Record bucketer\<close>

text \<open>
  C2, as stated: for every accepted record and every zoom range with
  \<open>minZoom \<le> maxZoom\<close>, absorbing the record makes \<open>maxZoom - minZoom + 1\<close> bucket
  insertions. With \<open>minZoom = -1\<close> and \<open>maxZoom = 0\<close> the first call of the mapper raises
  ValueError (\<^verbatim>\<open>1 << -1\<close>) and nothing is inserted; with \<open>minZoom = maxZoom = 1024\<close> it
  raises OverflowError (\<^verbatim>\<open>1 << 1024\<close> has no float) and nothing is inserted.
\<close>

theorem absorb_zoom_range_counterexample:
  "(- 1 :: int) \<le> 0 \<and>
   absorb \<lparr>lon_of = 0, lat_of = 0, properties = []\<rparr> [- 1 .. 0] [] = (Some ValueError, []) \<and>
   bucket_count [] \<noteq> bucket_count [] + nat (0 - (- 1) + 1) \<and>
   (1024 :: int) \<le> 1024 \<and>
   absorb \<lparr>lon_of = 0, lat_of = 0, properties = []\<rparr> [1024 .. 1024] [] = (Some OverflowError, []) \<and>
   bucket_count [] \<noteq> bucket_count [] + nat (1024 - 1024 + 1)"
proof -
  have "absorb \<lparr>lon_of = 0, lat_of = 0, properties = []\<rparr> [1024 .. 1024] [] = (Some OverflowError, [])"
    by (simp add: lonlat_to_tile_overflow)
  then show ?thesis by (simp add: upto_negative_start)
qed

text \<open>
  C2, amended: for every feature with a longitude in \<open>[-180, 180]\<close> and a latitude in
  \<open>[-90, 90]\<close>, and every zoom range with \<open>0 \<le> minZoom \<le> maxZoom \<le> 1023\<close>, absorbing the
  feature does not raise and makes exactly \<open>maxZoom - minZoom + 1\<close> insertions: for
  each zoom level of the range the feature is appended to the bucket of the key that
  the mapper computes for that zoom and the feature's coordinates, and no other
  bucket changes.
\<close>

theorem absorb_one_per_zoom:
  assumes "0 \<le> lo" and "lo \<le> hi" and "hi < 1024"
    and "- 180 \<le> lon_of f" and "lon_of f \<le> 180" and "- 90 \<le> lat_of f" and "lat_of f \<le> 90"
  shows "\<exists>b'. absorb f [lo..hi] b = (None, b') \<and>
           bucket_count b' = bucket_count b + nat (hi - lo + 1) \<and>
           (\<forall>z\<in>{lo..hi}. \<exists>x y. lonlat_to_tile (lon_of f) (lat_of f) z = Inr (x, y) \<and>
                bucket_features b' (z, x, y) = bucket_features b (z, x, y) @ [f]) \<and>
           (\<forall>k. \<not> (fst k \<in> {lo..hi} \<and> lonlat_to_tile (lon_of f) (lat_of f) (fst k) = Inr (snd k)) \<longrightarrow>
                bucket_features b' k = bucket_features b k)"
proof -
  have "fst (absorb f [lo..hi] b) = None"
    using assms(1-3) by (intro absorb_range_ok) simp_all
  then obtain b' where ab: "absorb f [lo..hi] b = (None, b')"
    by (cases "absorb f [lo..hi] b") simp
  have cnt: "bucket_count b' = bucket_count b + nat (hi - lo + 1)"
    using absorb_count [OF ab] assms by simp
  have feats: "bucket_features b' k = bucket_features b k @ feature_contrib f [lo..hi] k" for k
    using absorb_features [OF _ ab] by simp
  have per_zoom: "\<exists>x y. lonlat_to_tile (lon_of f) (lat_of f) z = Inr (x, y) \<and>
      bucket_features b' (z, x, y) = bucket_features b (z, x, y) @ [f]" if "z \<in> {lo..hi}" for z
  proof -
    from that assms have "0 \<le> z" and "z < 1024" by simp_all
    from lonlat_to_tile_ok [OF this] obtain x y
      where xy: "lonlat_to_tile (lon_of f) (lat_of f) z = Inr (x, y)" by blast
    then have "feature_contrib f [lo..hi] (z, x, y) = [f]"
      using that by (simp add: feature_contrib_def)
    with feats [of "(z, x, y)"] xy show ?thesis by simp
  qed
  have others: "bucket_features b' k = bucket_features b k"
    if "\<not> (fst k \<in> {lo..hi} \<and> lonlat_to_tile (lon_of f) (lat_of f) (fst k) = Inr (snd k))" for k
    using that feats [of k] by (simp add: feature_contrib_def)
  from ab cnt per_zoom others show ?thesis by blast
qed

theorem absorb_one_per_zoom_witness:
  "(0::int) \<le> 5 \<and> (5::int) \<le> 7 \<and> (7::int) < 1024 \<and>
   (- 180 :: real) \<le> 8.5 \<and> (8.5 :: real) \<le> 180 \<and> (- 90 :: real) \<le> 47 \<and> (47 :: real) \<le> 90 \<and>
   (\<exists>b'. absorb \<lparr>lon_of = 8.5, lat_of = 47, properties = []\<rparr> [5..7] [] = (None, b') \<and>
      bucket_count b' = bucket_count [] + nat (7 - 5 + 1) \<and>
      (\<forall>z\<in>{5..7}. \<exists>x y. lonlat_to_tile 8.5 47 z = Inr (x, y) \<and>
          bucket_features b' (z, x, y) =
          bucket_features [] (z, x, y) @ [\<lparr>lon_of = 8.5, lat_of = 47, properties = []\<rparr>]) \<and>
      (\<forall>k. \<not> (fst k \<in> {5..7} \<and> lonlat_to_tile 8.5 47 (fst k) = Inr (snd k)) \<longrightarrow>
          bucket_features b' k = bucket_features [] k))"
  using absorb_one_per_zoom [of 5 7 "\<lparr>lon_of = 8.5, lat_of = 47, properties = []\<rparr>" "[]"]
  by simp

subsection \<open>Pipeline driver\<close>

text \<open>
  C3. The claim is that the run reports the number of rows successfully tiled, and
  that on the three-row input with one invalid row (\<open>lon = 200\<close>) the report shows
  \<open>tiled = 2\<close>. The last line of \<^verbatim>\<open>main\<close> prints \<^verbatim>\<open>Tiled {rows_seen:,} rows\<close>, and
  \<^verbatim>\<open>rows_seen\<close> is incremented for every row before the row is checked: on that input
  the run ends normally and prints \<^verbatim>\<open>Tiled 3 rows\<close>, while 2 rows were tiled and 1 was
  skipped. The number printed under the label of the tiled rows counts the skipped
  rows too.
\<close>

theorem tiled_report_counts_skipped_rows:
  "fst (main all_writable example_args example_float example_rows Map.empty) = None \<and>
   tiled_report (snd (main all_writable example_args example_float example_rows Map.empty)) = 3 \<and>
   length (filter (accepted example_args example_float) example_rows) = 2 \<and>
   length (filter (\<lambda>r. \<not> accepted example_args example_float r) example_rows) = 1 \<and>
   tiled_report (snd (main all_writable example_args example_float example_rows Map.empty)) \<noteq>
     length (filter (accepted example_args example_float) example_rows)"
proof -
  have ok: "fst (main all_writable example_args example_float example_rows Map.empty) = None"
    by (rule example_main_ok)
  then obtain st where m: "main all_writable example_args example_float example_rows Map.empty = (None, st)"
    by (cases "main all_writable example_args example_float example_rows Map.empty") simp
  from main_ok(3) [OF m] have "rows_seen st = 3" by (simp add: example_rows_def)
  moreover have "length (filter (accepted example_args example_float) example_rows) = 2"
    by (simp add: example_rows_def example_accepted)
  moreover have "length (filter (\<lambda>r. \<not> accepted example_args example_float r) example_rows) = 1"
    by (simp add: example_rows_def example_accepted)
  ultimately show ?thesis using m by (simp add: tiled_report_def)
qed

text \<open>
  C6. A row whose latitude or longitude cell is missing or not a number
  (\<^verbatim>\<open>float(row[key])\<close> raises), or whose latitude is outside \<open>[-90, 90]\<close> or longitude
  outside \<open>[-180, 180]\<close>, is skipped: the iteration raises nothing and changes only
  \<^verbatim>\<open>rows_seen\<close>, so the buckets and the tile files stay as they were; and after a run
  that ends normally the tile files hold what they held before and the features of
  the other rows, nothing of the skipped row.
\<close>

theorem invalid_row_skipped:
  assumes "read_float pf r (lat_col a) = None \<or> read_float pf r (lon_col a) = None \<or>
     (\<exists>v. read_float pf r (lat_col a) = Some v \<and> \<not> in_range (- 90) v 90) \<or>
     (\<exists>v. read_float pf r (lon_col a) = Some v \<and> \<not> in_range (- 180) v 180)"
  shows "process_row w a pf st r = (None, st\<lparr>rows_seen := rows_seen st + 1\<rparr>) \<and>
     (fst (main w a pf (rs1 @ r # rs2) fs) = None \<longrightarrow>
        stored (tiles (snd (main w a pf (rs1 @ r # rs2) fs))) k =
        stored fs k @ rows_contrib a pf (rs1 @ rs2) k)"
proof
  have none: "row_coords a pf r = None" using assms by (rule invalid_row_coords)
  then show "process_row w a pf st r = (None, st\<lparr>rows_seen := rows_seen st + 1\<rparr>)"
    by (rule process_row_skip)
  have "rows_contrib a pf (rs1 @ r # rs2) k = rows_contrib a pf (rs1 @ rs2) k"
    using none by (simp add: rows_contrib_append rows_contrib_Cons row_contrib_def)
  then show "fst (main w a pf (rs1 @ r # rs2) fs) = None \<longrightarrow>
        stored (tiles (snd (main w a pf (rs1 @ r # rs2) fs))) k =
        stored fs k @ rows_contrib a pf (rs1 @ rs2) k"
    using main_ok(1) [of w a pf "rs1 @ r # rs2" fs "snd (main w a pf (rs1 @ r # rs2) fs)" k]
    by (cases "main w a pf (rs1 @ r # rs2) fs") simp
qed

theorem invalid_row_skipped_witness:
  "read_float example_float (point_row ''10'' ''200'') (lon_col example_args) = Some (Finite 200) \<and>
   \<not> in_range (- 180) (Finite 200) 180 \<and>
   process_row all_writable example_args example_float (init_state Map.empty) (point_row ''10'' ''200'') =
     (None, (init_state Map.empty)\<lparr>rows_seen := rows_seen (init_state Map.empty) + 1\<rparr>) \<and>
   fst (main all_writable example_args example_float
          ([point_row ''47.0'' ''8.5'', point_row ''47.01'' ''8.51''] @ point_row ''10'' ''200'' # [])
          Map.empty) = None \<and>
   stored (tiles (snd (main all_writable example_args example_float
          ([point_row ''47.0'' ''8.5'', point_row ''47.01'' ''8.51''] @ point_row ''10'' ''200'' # [])
          Map.empty))) (6, 0, 0) =
     stored Map.empty (6, 0, 0) @
     rows_contrib example_args example_float
       ([point_row ''47.0'' ''8.5'', point_row ''47.01'' ''8.51''] @ []) (6, 0, 0)"
proof -
  have rf: "read_float example_float (point_row ''10'' ''200'') (lon_col example_args) = Some (Finite 200)"
    by (simp add: read_float_def example_args_def example_float_def point_row_def)
  have nr: "\<not> in_range (- 180) (Finite 200) 180" by simp
  from rf nr have hyp: "read_float example_float (point_row ''10'' ''200'') (lat_col example_args) = None \<or>
     read_float example_float (point_row ''10'' ''200'') (lon_col example_args) = None \<or>
     (\<exists>v. read_float example_float (point_row ''10'' ''200'') (lat_col example_args) = Some v \<and> \<not> in_range (- 90) v 90) \<or>
     (\<exists>v. read_float example_float (point_row ''10'' ''200'') (lon_col example_args) = Some v \<and> \<not> in_range (- 180) v 180)"
    by blast
  note ok = example_main_ok [of "[point_row ''47.0'' ''8.5'', point_row ''47.01'' ''8.51''] @ point_row ''10'' ''200'' # []"]
  note t = invalid_row_skipped [OF hyp, of all_writable "init_state Map.empty"
      "[point_row ''47.0'' ''8.5'', point_row ''47.01'' ''8.51'']" "[]" Map.empty "(6, 0, 0)"]
  from t have t1: "process_row all_writable example_args example_float (init_state Map.empty) (point_row ''10'' ''200'') =
     (None, (init_state Map.empty)\<lparr>rows_seen := rows_seen (init_state Map.empty) + 1\<rparr>)"
    by (rule conjunct1)
  from t ok have t2: "stored (tiles (snd (main all_writable example_args example_float
          ([point_row ''47.0'' ''8.5'', point_row ''47.01'' ''8.51''] @ point_row ''10'' ''200'' # [])
          Map.empty))) (6, 0, 0) =
     stored Map.empty (6, 0, 0) @
     rows_contrib example_args example_float
       ([point_row ''47.0'' ''8.5'', point_row ''47.01'' ''8.51''] @ []) (6, 0, 0)"
    by (elim conjE impE) assumption+
  from rf nr t1 ok t2 show ?thesis by (intro conjI)
qed

text \<open>
  C8, as stated: the driver counts the accepted rows and flushes exactly whenever that
  count reaches a multiple of the batch size, and once more at the end. The code counts
  every row read: with a batch size of 2 and the input \<open>[invalid, valid]\<close> it flushes
  after the second row, where one row has been accepted, and again at the end (log
  \<open>[2, 2]\<close>); the log of the specification has the final flush only (\<open>[2]\<close>).
\<close>

theorem flush_points_counterexample:
  "flush_log (snd (main all_writable (example_args\<lparr>batch := 2\<rparr>) example_float
       [point_row ''10'' ''200'', point_row ''47.0'' ''8.5''] Map.empty)) = [2, 2] \<and>
   claimed_flush_log 2
     (map (accepted (example_args\<lparr>batch := 2\<rparr>) example_float)
       [point_row ''10'' ''200'', point_row ''47.0'' ''8.5'']) 0 0 = [2] \<and>
   flush_log (snd (main all_writable (example_args\<lparr>batch := 2\<rparr>) example_float
       [point_row ''10'' ''200'', point_row ''47.0'' ''8.5''] Map.empty)) \<noteq>
   claimed_flush_log 2
     (map (accepted (example_args\<lparr>batch := 2\<rparr>) example_float)
       [point_row ''10'' ''200'', point_row ''47.0'' ''8.5'']) 0 0"
proof -
  have nb: "\<not> bad_config (example_args\<lparr>batch := 2\<rparr>)"
    by (simp add: bad_config_def bad_zoom_def example_args_def)
  have ok: "fst (main all_writable (example_args\<lparr>batch := 2\<rparr>) example_float
       [point_row ''10'' ''200'', point_row ''47.0'' ''8.5''] Map.empty) = None"
    by (rule main_good [OF no_corrupt_empty nb all_writable])
  then obtain st where m: "main all_writable (example_args\<lparr>batch := 2\<rparr>) example_float
       [point_row ''10'' ''200'', point_row ''47.0'' ''8.5''] Map.empty = (None, st)"
    by (cases "main all_writable (example_args\<lparr>batch := 2\<rparr>) example_float
       [point_row ''10'' ''200'', point_row ''47.0'' ''8.5''] Map.empty") simp
  from main_ok(4) [OF m] have "flush_log st = [2, 2]"
    by (simp add: flush_rows_def example_accepted accepted_batch_update)
  moreover have "claimed_flush_log 2
     (map (accepted (example_args\<lparr>batch := 2\<rparr>) example_float)
       [point_row ''10'' ''200'', point_row ''47.0'' ''8.5'']) 0 0 = [2]"
    by (simp add: example_accepted accepted_batch_update)
  ultimately show ?thesis using m by simp
qed

text \<open>
  C8, amended: the counter counts every row read. In a run that ends normally, the
  flushes before the end of the input come at increasing values of the counter that
  are multiples of the batch size, one at every accepted row at which the counter is
  such a multiple; and one more flush is invoked after the last row, whatever the
  size of the trailing batch. The log lists the value of the counter at each flush, in
  order.
\<close>

theorem flush_points:
  assumes "fst (main w a pf rows fs) = None"
  shows "flush_log (snd (main w a pf rows fs)) \<noteq> [] \<and>
     last (flush_log (snd (main w a pf rows fs))) = length rows \<and>
     sorted (butlast (flush_log (snd (main w a pf rows fs)))) \<and>
     distinct (butlast (flush_log (snd (main w a pf rows fs)))) \<and>
     (\<forall>i\<in>set (butlast (flush_log (snd (main w a pf rows fs)))).
        1 \<le> i \<and> i \<le> length rows \<and> int i mod batch a = 0) \<and>
     (\<forall>i. 1 \<le> i \<and> i \<le> length rows \<and> accepted a pf (rows ! (i - 1)) \<and> int i mod batch a = 0 \<longrightarrow>
        i \<in> set (butlast (flush_log (snd (main w a pf rows fs)))))"
proof -
  from assms obtain st where m: "main w a pf rows fs = (None, st)"
    by (cases "main w a pf rows fs") simp
  have log: "flush_log (snd (main w a pf rows fs)) = flush_rows a pf 1 rows @ [length rows]"
    using main_ok(4) [OF m] m by simp
  have only: "1 \<le> i \<and> i \<le> length rows \<and> int i mod batch a = 0"
    if "i \<in> set (flush_rows a pf 1 rows)" for i
    using flush_rows_only [OF that] by simp
  have every: "i \<in> set (flush_rows a pf 1 rows)"
    if "1 \<le> i \<and> i \<le> length rows \<and> accepted a pf (rows ! (i - 1)) \<and> int i mod batch a = 0" for i
    using that by (intro flush_rows_every) simp_all
  have bl: "butlast (flush_log (snd (main w a pf rows fs))) = flush_rows a pf 1 rows"
    by (simp add: log)
  have "flush_log (snd (main w a pf rows fs)) \<noteq> []"
    and "last (flush_log (snd (main w a pf rows fs))) = length rows"
    by (simp_all add: log)
  moreover have "sorted (butlast (flush_log (snd (main w a pf rows fs))))"
    and "distinct (butlast (flush_log (snd (main w a pf rows fs))))"
    using flush_rows_sorted [of a pf 1 rows] by (simp_all only: bl)
  moreover have "\<forall>i\<in>set (butlast (flush_log (snd (main w a pf rows fs)))).
        1 \<le> i \<and> i \<le> length rows \<and> int i mod batch a = 0"
    unfolding bl using only by (rule ballI)
  moreover have "\<forall>i. 1 \<le> i \<and> i \<le> length rows \<and> accepted a pf (rows ! (i - 1)) \<and>
        int i mod batch a = 0 \<longrightarrow> i \<in> set (butlast (flush_log (snd (main w a pf rows fs))))"
    unfolding bl using every by (intro allI impI)
  ultimately show ?thesis by (intro conjI)
qed

theorem flush_points_witness:
  "fst (main all_writable (example_args\<lparr>batch := 2\<rparr>) example_float example_rows Map.empty) = None \<and>
   flush_log (snd (main all_writable (example_args\<lparr>batch := 2\<rparr>) example_float example_rows Map.empty))
     = [2, 3] \<and>
   last (flush_log (snd (main all_writable (example_args\<lparr>batch := 2\<rparr>) example_float example_rows
     Map.empty))) = length example_rows \<and>
   sorted (butlast (flush_log (snd (main all_writable (example_args\<lparr>batch := 2\<rparr>) example_float
     example_rows Map.empty)))) \<and>
   2 \<in> set (butlast (flush_log (snd (main all_writable (example_args\<lparr>batch := 2\<rparr>) example_float
     example_rows Map.empty)))) \<and>
   (1 :: nat) \<le> 2 \<and> 2 \<le> length example_rows \<and>
   accepted (example_args\<lparr>batch := 2\<rparr>) example_float (example_rows ! (2 - 1)) \<and>
   int 2 mod batch (example_args\<lparr>batch := 2\<rparr>) = 0"
proof -
  have nb: "\<not> bad_config (example_args\<lparr>batch := 2\<rparr>)"
    by (simp add: bad_config_def bad_zoom_def example_args_def)
  have ok: "fst (main all_writable (example_args\<lparr>batch := 2\<rparr>) example_float example_rows Map.empty) = None"
    by (rule main_good [OF no_corrupt_empty nb all_writable])
  then obtain st where m: "main all_writable (example_args\<lparr>batch := 2\<rparr>) example_float example_rows
      Map.empty = (None, st)"
    by (cases "main all_writable (example_args\<lparr>batch := 2\<rparr>) example_float example_rows Map.empty") simp
  from main_ok(4) [OF m] have "flush_log st = [2, 3]"
    by (simp add: flush_rows_def example_rows_def example_accepted accepted_batch_update)
  with m have log: "flush_log (snd (main all_writable (example_args\<lparr>batch := 2\<rparr>) example_float
      example_rows Map.empty)) = [2, 3]" by simp
  have row: "(1 :: nat) \<le> 2 \<and> 2 \<le> length example_rows \<and>
      accepted (example_args\<lparr>batch := 2\<rparr>) example_float (example_rows ! (2 - 1)) \<and>
      int 2 mod batch (example_args\<lparr>batch := 2\<rparr>) = 0"
    by (simp add: example_rows_def example_accepted accepted_batch_update)
  note t = flush_points [OF ok]
  note t2 = t [THEN conjunct2, THEN conjunct1]
  note t3 = t [THEN conjunct2, THEN conjunct2, THEN conjunct1]
  note t6 = t [THEN conjunct2, THEN conjunct2, THEN conjunct2, THEN conjunct2, THEN conjunct2]
  from t6 have "(1 :: nat) \<le> 2 \<and> 2 \<le> length example_rows \<and>
      accepted (example_args\<lparr>batch := 2\<rparr>) example_float (example_rows ! (2 - 1)) \<and>
      int 2 mod batch (example_args\<lparr>batch := 2\<rparr>) = 0 \<longrightarrow>
    2 \<in> set (butlast (flush_log (snd (main all_writable (example_args\<lparr>batch := 2\<rparr>) example_float
      example_rows Map.empty))))"
    by (rule spec)
  from this row have t7: "2 \<in> set (butlast (flush_log (snd (main all_writable
      (example_args\<lparr>batch := 2\<rparr>) example_float example_rows Map.empty))))"
    by (rule mp)
  from ok log t2 t3 t7 row show ?thesis by (intro conjI) (elim conjE, assumption)+
qed

text \<open>
  C7, as stated: running with batch size 1 and with any other batch size into fresh
  output directories gives the same tile files. With batch size 0 the test
  \<^verbatim>\<open>rows_seen % args.batch\<close> raises ZeroDivisionError at the first accepted row, before
  anything is written, while batch size 1 writes the tile of that row.
\<close>

theorem batch_size_zero_counterexample:
  "(1 :: int) \<noteq> 0 \<and>
   tiles (snd (main all_writable (origin_args\<lparr>batch := 1\<rparr>) example_float [point_row ''0'' ''0''] Map.empty))
     (0, 0, 0) = Some (FeatureCollection [origin_feature]) \<and>
   main all_writable (origin_args\<lparr>batch := 0\<rparr>) example_float [point_row ''0'' ''0''] Map.empty =
     (Some ZeroDivisionError,
      \<lparr>buckets_of = [((0, 0, 0), [origin_feature])], rows_seen = 1, tiles = Map.empty, flush_log = []\<rparr>) \<and>
   tiles (snd (main all_writable (origin_args\<lparr>batch := 1\<rparr>) example_float [point_row ''0'' ''0''] Map.empty)) \<noteq>
   tiles (snd (main all_writable (origin_args\<lparr>batch := 0\<rparr>) example_float [point_row ''0'' ''0''] Map.empty))"
proof -
  have nb: "\<not> bad_config (origin_args\<lparr>batch := 1\<rparr>)"
    by (simp add: bad_config_def bad_zoom_def origin_args_def)
  from main_good [OF no_corrupt_empty nb all_writable, of example_float "[point_row ''0'' ''0'']"]
  obtain st where m: "main all_writable (origin_args\<lparr>batch := 1\<rparr>) example_float [point_row ''0'' ''0''] Map.empty = (None, st)"
    by (cases "main all_writable (origin_args\<lparr>batch := 1\<rparr>) example_float [point_row ''0'' ''0''] Map.empty") simp
  from main_ok(1) [OF m, of "(0, 0, 0)"] have "stored (tiles st) (0, 0, 0) = [origin_feature]"
    by (simp add: stored_None origin_contrib)
  with stored_nonempty [of "tiles st" "(0, 0, 0)"] m
  have one: "tiles (snd (main all_writable (origin_args\<lparr>batch := 1\<rparr>) example_float [point_row ''0'' ''0''] Map.empty))
     (0, 0, 0) = Some (FeatureCollection [origin_feature])" by simp
  have rc: "row_coords (origin_args\<lparr>batch := 0\<rparr>) example_float (point_row ''0'' ''0'') = Some (0, 0)"
    by (rule origin_row_coords)
  have mf: "make_feature (origin_args\<lparr>batch := 0\<rparr>) (point_row ''0'' ''0'') 0 0 = origin_feature"
    by (simp add: make_feature_def origin_feature_def origin_args_def)
  have ab: "absorb (make_feature (origin_args\<lparr>batch := 0\<rparr>) (point_row ''0'' ''0'') 0 0)
      [min_zoom (origin_args\<lparr>batch := 0\<rparr>) .. max_zoom (origin_args\<lparr>batch := 0\<rparr>)]
      (buckets_of (init_state Map.empty)) = (None, [((0, 0, 0), [origin_feature])])"
    unfolding mf by (simp add: origin_args_def init_state_def lonlat_to_tile_origin origin_feature_def)
  have pr: "process_row all_writable (origin_args\<lparr>batch := 0\<rparr>) example_float (init_state Map.empty)
      (point_row ''0'' ''0'') =
     (Some ZeroDivisionError,
      \<lparr>buckets_of = [((0, 0, 0), [origin_feature])], rows_seen = 1, tiles = Map.empty, flush_log = []\<rparr>)"
    using process_row_batch_zero [OF rc ab] by (simp add: init_state_def)
  have zero: "main all_writable (origin_args\<lparr>batch := 0\<rparr>) example_float [point_row ''0'' ''0''] Map.empty =
     (Some ZeroDivisionError,
      \<lparr>buckets_of = [((0, 0, 0), [origin_feature])], rows_seen = 1, tiles = Map.empty, flush_log = []\<rparr>)"
    by (simp add: main_def pr)
  from one zero
  have "tiles (snd (main all_writable (origin_args\<lparr>batch := 1\<rparr>) example_float [point_row ''0'' ''0''] Map.empty))
      (0, 0, 0) \<noteq>
    tiles (snd (main all_writable (origin_args\<lparr>batch := 0\<rparr>) example_float [point_row ''0'' ''0''] Map.empty))
      (0, 0, 0)"
    by simp
  then have "tiles (snd (main all_writable (origin_args\<lparr>batch := 1\<rparr>) example_float [point_row ''0'' ''0''] Map.empty)) \<noteq>
    tiles (snd (main all_writable (origin_args\<lparr>batch := 0\<rparr>) example_float [point_row ''0'' ''0''] Map.empty))"
    by metis
  with one zero show ?thesis by simp
qed

text \<open>
  C7, amended: for every input and any two batch sizes (1 and 1,000,000 among them),
  two runs into fresh output directories that both end normally leave the same tile
  store: the same keys, and for each key the same features in the same order. When
  no write of a tile fails and neither batch size is 0, the two runs end the same way
  and leave the same tile store. (When a write fails, the tiles written before it
  depend on the batch size: \<open>unwritable_tile_batch_dependent\<close>.)
\<close>

theorem batch_size_independent:
  "(fst (main w (a\<lparr>batch := b1\<rparr>) pf rows Map.empty) = None \<and>
    fst (main w' (a\<lparr>batch := b2\<rparr>) pf rows Map.empty) = None \<longrightarrow>
      tiles (snd (main w (a\<lparr>batch := b1\<rparr>) pf rows Map.empty)) =
      tiles (snd (main w' (a\<lparr>batch := b2\<rparr>) pf rows Map.empty))) \<and>
   ((\<forall>k. w k) \<and> b1 \<noteq> 0 \<and> b2 \<noteq> 0 \<longrightarrow>
      fst (main w (a\<lparr>batch := b1\<rparr>) pf rows Map.empty) =
      fst (main w (a\<lparr>batch := b2\<rparr>) pf rows Map.empty) \<and>
      tiles (snd (main w (a\<lparr>batch := b1\<rparr>) pf rows Map.empty)) =
      tiles (snd (main w (a\<lparr>batch := b2\<rparr>) pf rows Map.empty)))"
proof -
  have same: "tiles (snd (main v (a\<lparr>batch := b1\<rparr>) pf rows Map.empty)) =
      tiles (snd (main v' (a\<lparr>batch := b2\<rparr>) pf rows Map.empty))"
    if "fst (main v (a\<lparr>batch := b1\<rparr>) pf rows Map.empty) = None"
      and "fst (main v' (a\<lparr>batch := b2\<rparr>) pf rows Map.empty) = None" for v v'
    using that by (rule main_from_empty_eq) (simp add: rows_contrib_batch_update)
  have both: "fst (main w (a\<lparr>batch := b1\<rparr>) pf rows Map.empty) =
      fst (main w (a\<lparr>batch := b2\<rparr>) pf rows Map.empty) \<and>
      tiles (snd (main w (a\<lparr>batch := b1\<rparr>) pf rows Map.empty)) =
      tiles (snd (main w (a\<lparr>batch := b2\<rparr>) pf rows Map.empty))"
    if h: "(\<forall>k. w k) \<and> b1 \<noteq> 0 \<and> b2 \<noteq> 0"
  proof (cases "bad_zoom a")
    case True
    then have "main w (a\<lparr>batch := n\<rparr>) pf rows Map.empty = main w a pf rows Map.empty" for n
      by (rule main_bad_zoom)
    then show ?thesis by simp
  next
    case False
    have good: "\<not> bad_config (a\<lparr>batch := n\<rparr>)" if "n \<noteq> 0" for n
      using that False by (simp add: bad_config_def bad_zoom_def)
    from h have w: "\<forall>k. w k" and n1: "b1 \<noteq> 0" and n2: "b2 \<noteq> 0" by simp_all
    have r1: "fst (main w (a\<lparr>batch := b1\<rparr>) pf rows Map.empty) = None"
      by (rule main_good [OF no_corrupt_empty good [OF n1] w])
    have r2: "fst (main w (a\<lparr>batch := b2\<rparr>) pf rows Map.empty) = None"
      by (rule main_good [OF no_corrupt_empty good [OF n2] w])
    from r1 r2 same [OF r1 r2] show ?thesis by simp
  qed
  from same both show ?thesis by blast
qed

theorem batch_size_independent_witness:
  "fst (main all_writable (example_args\<lparr>batch := 1\<rparr>) example_float example_rows Map.empty) = None \<and>
   fst (main all_writable (example_args\<lparr>batch := 1000000\<rparr>) example_float example_rows Map.empty) = None \<and>
   (\<forall>k. all_writable k) \<and> (1 :: int) \<noteq> 0 \<and> (1000000 :: int) \<noteq> 0 \<and>
   tiles (snd (main all_writable (example_args\<lparr>batch := 1\<rparr>) example_float example_rows Map.empty)) =
   tiles (snd (main all_writable (example_args\<lparr>batch := 1000000\<rparr>) example_float example_rows Map.empty))"
proof -
  have nb: "\<not> bad_config (example_args\<lparr>batch := n\<rparr>)" if "n \<noteq> 0" for n
    using that by (simp add: bad_config_def bad_zoom_def example_args_def)
  have r1: "fst (main all_writable (example_args\<lparr>batch := 1\<rparr>) example_float example_rows Map.empty) = None"
    by (rule main_good [OF no_corrupt_empty nb all_writable]) simp
  have r2: "fst (main all_writable (example_args\<lparr>batch := 1000000\<rparr>) example_float example_rows Map.empty) = None"
    by (rule main_good [OF no_corrupt_empty nb all_writable]) simp
  note t = batch_size_independent [where w = all_writable and w' = all_writable
      and a = example_args and ?b1.0 = 1 and ?b2.0 = 1000000 and pf = example_float
      and rows = example_rows]
  from t r1 r2 have eq: "tiles (snd (main all_writable (example_args\<lparr>batch := 1\<rparr>) example_float example_rows Map.empty)) =
   tiles (snd (main all_writable (example_args\<lparr>batch := 1000000\<rparr>) example_float example_rows Map.empty))"
    by blast
  from r1 r2 all_writable eq show ?thesis by simp
qed

end
